theory Spec2Isabelle
  imports Main "HOL-Library.Char_ord" "HOL-Library.List_Lexorder"
begin

section \<open>Text: characters and the string operations the program uses\<close>

text \<open>
  The program works on Python \<open>str\<close> values. A text is modelled as a \<open>string\<close>,
  a list of characters, each character standing for the code point of the same number
  (code points 0 to 255). Strings are ordered as Python orders them: by code point,
  lexicographically, a proper prefix first.
\<close>

abbreviation NL :: char where "NL \<equiv> CHR 0x0A"
abbreviation DQ :: char where "DQ \<equiv> CHR 0x22"
abbreviation SQ :: char where "SQ \<equiv> CHR 0x27"

text \<open>\<open>str.isspace\<close> on one character, which is also the class \<open>\s\<close> of \<open>re\<close>.\<close>

definition isspace :: "char \<Rightarrow> bool" where
  "isspace c = (let n = (of_char c :: nat) in
      (9 \<le> n \<and> n \<le> 13) \<or> (28 \<le> n \<and> n \<le> 32) \<or> n = 133 \<or> n = 160)"

text \<open>The class \<open>\w\<close> of \<open>re\<close> on text patterns: alphanumeric characters and the underscore.\<close>

definition isword :: "char \<Rightarrow> bool" where
  "isword c = (let n = (of_char c :: nat) in
      (48 \<le> n \<and> n \<le> 57) \<or> (65 \<le> n \<and> n \<le> 90) \<or> n = 95 \<or> (97 \<le> n \<and> n \<le> 122)
      \<or> n = 170 \<or> n = 178 \<or> n = 179 \<or> n = 181 \<or> n = 185 \<or> n = 186
      \<or> (188 \<le> n \<and> n \<le> 190) \<or> (192 \<le> n \<and> n \<le> 214) \<or> (216 \<le> n \<and> n \<le> 246)
      \<or> (248 \<le> n \<and> n \<le> 255))"

text \<open>\<open>s.split(c)\<close> for a one-character separator: never an empty list.\<close>

fun split_on :: "char \<Rightarrow> string \<Rightarrow> string list" where
  "split_on c [] = [[]]"
| "split_on c (x # xs) =
     (if x = c then [] # split_on c xs
      else (case split_on c xs of
              [] \<Rightarrow> [[x]]
            | w # ws \<Rightarrow> (x # w) # ws))"

text \<open>\<open>sep.join(ws)\<close>.\<close>

fun join :: "string \<Rightarrow> string list \<Rightarrow> string" where
  "join sep [] = []"
| "join sep [w] = w"
| "join sep (w # v # ws) = w @ sep @ join sep (v # ws)"

text \<open>\<open>s.strip()\<close>, \<open>s.strip(cs)\<close> and \<open>s.rstrip(cs)\<close>.\<close>

definition strip :: "string \<Rightarrow> string" where
  "strip s = rev (dropWhile isspace (rev (dropWhile isspace s)))"

definition rstrip_chars :: "char list \<Rightarrow> string \<Rightarrow> string" where
  "rstrip_chars cs s = rev (dropWhile (\<lambda>c. c \<in> set cs) (rev s))"

definition strip_chars :: "char list \<Rightarrow> string \<Rightarrow> string" where
  "strip_chars cs s = rstrip_chars cs (dropWhile (\<lambda>c. c \<in> set cs) s)"

text \<open>\<open>s.startswith(w)\<close>, \<open>s.endswith(w)\<close>, \<open>w in s\<close> and \<open>s.count(c)\<close>.\<close>

definition startswith :: "string \<Rightarrow> string \<Rightarrow> bool" where
  "startswith s w = (take (length w) s = w)"

definition endswith :: "string \<Rightarrow> string \<Rightarrow> bool" where
  "endswith s w = (length w \<le> length s \<and> drop (length s - length w) s = w)"

fun contains :: "string \<Rightarrow> string \<Rightarrow> bool" where
  "contains [] w = (w = [])"
| "contains (x # xs) w = (startswith (x # xs) w \<or> contains xs w)"

definition count_char :: "string \<Rightarrow> char \<Rightarrow> nat" where
  "count_char s c = length (filter (\<lambda>x. x = c) s)"

text \<open>\<open>str(n)\<close> for a counter, which is never negative.\<close>

definition digit :: "nat \<Rightarrow> char" where
  "digit n = ''0123456789'' ! n"

fun str_nat :: "nat \<Rightarrow> string" where
  "str_nat n = (if n < 10 then [digit n] else str_nat (n div 10) @ [digit (n mod 10)])"

declare str_nat.simps [simp del]

section \<open>Regular expressions as the program's patterns use them\<close>

text \<open>
  The patterns of the program use literals, character classes, greedy and lazy
  repetition of one character class, optional parts, alternatives, capture groups and
  the two anchors. \<open>re\<close> matches by backtracking: it tries the ways to match in a fixed
  order of preference and takes the first that succeeds. \<open>matches r st\<close> lists
  every way to match \<open>r\<close> from the state \<open>st\<close> in that order, so its head is the match
  \<open>re\<close> finds. A state is the position in the text, the text that is left and the
  groups captured so far.

  \<open>Dot\<close> is \<open>.\<close> without the DOTALL flag and \<open>DotAll\<close> is \<open>.\<close> with it;
  \<open>EolM\<close> is \<open>$\<close> under the MULTILINE flag; \<open>Bol\<close> is \<open>^\<close> without it.
\<close>

datatype cclass = Dot | DotAll | Space | Word | OneOf "char list" | NoneOf "char list"

fun in_class :: "cclass \<Rightarrow> char \<Rightarrow> bool" where
  "in_class Dot c = (c \<noteq> NL)"
| "in_class DotAll c = True"
| "in_class Space c = isspace c"
| "in_class Word c = isword c"
| "in_class (OneOf cs) c = (c \<in> set cs)"
| "in_class (NoneOf cs) c = (c \<notin> set cs)"

datatype regex =
    Eps
  | Lit string
  | Cls cclass
  | Seq regex regex
  | Alt regex regex
  | Star cclass
  | StarLazy cclass
  | Opt regex
  | Grp nat regex
  | Bol
  | EolM

type_synonym groups = "nat \<Rightarrow> string option"
type_synonym mstate = "nat \<times> string \<times> groups"

text \<open>\<open>k*\<close>: the longest run first.\<close>

fun star_greedy :: "cclass \<Rightarrow> nat \<Rightarrow> string \<Rightarrow> groups \<Rightarrow> mstate list" where
  "star_greedy k p [] g = [(p, [], g)]"
| "star_greedy k p (x # xs) g =
     (if in_class k x then star_greedy k (Suc p) xs g else []) @ [(p, x # xs, g)]"

text \<open>\<open>k*?\<close>: the shortest run first.\<close>

fun star_lazy :: "cclass \<Rightarrow> nat \<Rightarrow> string \<Rightarrow> groups \<Rightarrow> mstate list" where
  "star_lazy k p [] g = [(p, [], g)]"
| "star_lazy k p (x # xs) g =
     (p, x # xs, g) # (if in_class k x then star_lazy k (Suc p) xs g else [])"

fun matches :: "regex \<Rightarrow> mstate \<Rightarrow> mstate list" where
  "matches Eps st = [st]"
| "matches (Lit w) (p, s, g) =
     (if take (length w) s = w then [(p + length w, drop (length w) s, g)] else [])"
| "matches (Cls k) (p, s, g) =
     (case s of
        [] \<Rightarrow> []
      | x # xs \<Rightarrow> if in_class k x then [(Suc p, xs, g)] else [])"
| "matches (Seq a b) st = concat (map (matches b) (matches a st))"
| "matches (Alt a b) st = matches a st @ matches b st"
| "matches (Star k) (p, s, g) = star_greedy k p s g"
| "matches (StarLazy k) (p, s, g) = star_lazy k p s g"
| "matches (Opt a) st = matches a st @ [st]"
| "matches (Grp n a) (p, s, g) =
     map (\<lambda>(p', s', g'). (p', s', g'(n := Some (take (p' - p) s)))) (matches a (p, s, g))"
| "matches Bol (p, s, g) = (if p = 0 then [(p, s, g)] else [])"
| "matches EolM (p, s, g) =
     (case s of
        [] \<Rightarrow> [(p, s, g)]
      | x # xs \<Rightarrow> if x = NL then [(p, s, g)] else [])"

text \<open>A pattern written as a sequence of parts, and \<open>k+\<close>.\<close>

fun cat :: "regex list \<Rightarrow> regex" where
  "cat [] = Eps"
| "cat [r] = r"
| "cat (r # q # rs) = Seq r (cat (q # rs))"

definition plus :: "cclass \<Rightarrow> regex" where
  "plus k = Seq (Cls k) (Star k)"

text \<open>
  The match of \<open>r\<close> that starts at position \<open>p\<close>, where \<open>s\<close> is the text from \<open>p\<close> on:
  its length and its groups.
\<close>

definition match_at :: "regex \<Rightarrow> nat \<Rightarrow> string \<Rightarrow> (nat \<times> groups) option" where
  "match_at r p s =
     (case matches r (p, s, \<lambda>_. None) of
        [] \<Rightarrow> None
      | (p', s', g) # _ \<Rightarrow> Some (p' - p, g))"

text \<open>\<open>re.search(r, s)\<close>: the match at the leftmost position that has one.\<close>

fun re_search_from :: "regex \<Rightarrow> nat \<Rightarrow> string \<Rightarrow> groups option" where
  "re_search_from r p [] = map_option snd (match_at r p [])"
| "re_search_from r p (x # xs) =
     (case match_at r p (x # xs) of
        Some (n, g) \<Rightarrow> Some g
      | None \<Rightarrow> re_search_from r (Suc p) xs)"

definition re_search :: "regex \<Rightarrow> string \<Rightarrow> groups option" where
  "re_search r s = re_search_from r 0 s"

text \<open>
  \<open>re.sub(r, f, s)\<close>: every match, left to right and not overlapping, is replaced by what
  \<open>f\<close> makes of its groups. \<open>skip\<close> counts the characters of the current match that are
  still to be passed over. After an empty match the scan copies one character and goes on.
\<close>

fun re_sub_from :: "regex \<Rightarrow> (groups \<Rightarrow> string) \<Rightarrow> nat \<Rightarrow> nat \<Rightarrow> string \<Rightarrow> string" where
  "re_sub_from r f p skip [] =
     (case skip of
        0 \<Rightarrow> (case match_at r p [] of None \<Rightarrow> [] | Some (n, g) \<Rightarrow> f g)
      | Suc k \<Rightarrow> [])"
| "re_sub_from r f p skip (x # xs) =
     (case skip of
        Suc k \<Rightarrow> re_sub_from r f (Suc p) k xs
      | 0 \<Rightarrow>
         (case match_at r p (x # xs) of
            None \<Rightarrow> x # re_sub_from r f (Suc p) 0 xs
          | Some (n, g) \<Rightarrow>
              (case n of
                 0 \<Rightarrow> f g @ x # re_sub_from r f (Suc p) 0 xs
               | Suc k \<Rightarrow> f g @ re_sub_from r f (Suc p) k xs)))"

definition re_sub :: "regex \<Rightarrow> (groups \<Rightarrow> string) \<Rightarrow> string \<Rightarrow> string" where
  "re_sub r f s = re_sub_from r f 0 0 s"

text \<open>\<open>match.group(n) or ''\<close>; a group that took part is read with it as well.\<close>

definition group :: "groups \<Rightarrow> nat \<Rightarrow> string" where
  "group g n = (case g n of None \<Rightarrow> [] | Some w \<Rightarrow> w)"


section \<open>Rewriting image references: process_image_paths\<close>

text \<open>\<open>re.sub(r'^[./~]+', '', image_path)\<close>.\<close>

definition lead_pattern :: regex where
  "lead_pattern = Seq Bol (plus (OneOf ''./~''))"

definition strip_lead :: "string \<Rightarrow> string" where
  "strip_lead image_path = re_sub lead_pattern (\<lambda>g. []) image_path"

definition base_url :: string where
  "base_url = ''https://docs.astro.build/''"

text \<open>The replacement text of all three passes: \<open>f'![{alt}](https://docs.astro.build/{path})'\<close>.\<close>

definition image_link :: "string \<Rightarrow> string \<Rightarrow> string" where
  "image_link alt image_path = ''!['' @ alt @ '']('' @ base_url @ image_path @ '')''"

text \<open>\<open>import\s+(\w+)\s+from\s+['"]([^'"]+)['"]\<close>\<close>

definition mdx_pattern :: regex where
  "mdx_pattern = cat [Lit ''import'', plus Space, Grp 1 (plus Word), plus Space, Lit ''from'',
      plus Space, Cls (OneOf [SQ, DQ]), Grp 2 (plus (NoneOf [SQ, DQ])), Cls (OneOf [SQ, DQ])]"

definition mdx_replace :: "groups \<Rightarrow> string" where
  "mdx_replace g = image_link (group g 1) (strip_lead (group g 2))"

text \<open>\<open>!\[(.*?)\]\(([^http].*?)\)\<close>: \<open>[^http]\<close> is one character that is none of h, t, p.\<close>

definition md_pattern :: regex where
  "md_pattern = cat [Lit ''!['', Grp 1 (StarLazy Dot), Lit '']('',
      Grp 2 (Seq (Cls (NoneOf ''http'')) (StarLazy Dot)), Lit '')'']"

definition md_replace :: "groups \<Rightarrow> string" where
  "md_replace g = image_link (group g 1) (strip_lead (group g 2))"

text \<open>\<open><Image\s+src={([^}]+)}\s+alt="([^"]+)"[^>]*>\<close>\<close>

definition component_pattern :: regex where
  "component_pattern = cat [Lit ''<Image'', plus Space, Lit ''src={'', Grp 1 (plus (NoneOf ''}'')),
      Lit ''}'', plus Space, Lit ''alt='', Cls (OneOf [DQ]), Grp 2 (plus (NoneOf [DQ])),
      Cls (OneOf [DQ]), Star (NoneOf ''>''), Lit ''>'']"

definition component_replace :: "groups \<Rightarrow> string" where
  "component_replace g =
     image_link (group g 2) (strip_lead (strip_chars [DQ, SQ] (strip_chars ''{}'' (group g 1))))"

text \<open>
  The three passes in the order of the source. None of them can raise, so the
  \<open>except\<close> branch of the source is never taken and the result is a plain text.
\<close>

definition process_image_paths :: "string \<Rightarrow> string" where
  "process_image_paths md_content =
     re_sub component_pattern component_replace
       (re_sub md_pattern md_replace
          (re_sub mdx_pattern mdx_replace md_content))"


section \<open>Decorating code blocks: preprocess_code_blocks\<close>

text \<open>
  \<open>```(?:(\w+))?\s*(?:\{([^}]*)\})?\s*(.*?)```\<close> under DOTALL, and
  \<open>title="([^"]+)"\<close> for the attributes.
\<close>

definition fence :: string where
  "fence = ''```''"

definition code_block_pattern :: regex where
  "code_block_pattern = cat [Lit fence, Opt (Grp 1 (plus Word)), Star Space,
      Opt (cat [Lit ''{'', Grp 2 (Star (NoneOf ''}'')), Lit ''}'']), Star Space,
      Grp 3 (StarLazy DotAll), Lit fence]"

definition attr_title_pattern :: regex where
  "attr_title_pattern = cat [Lit ''title='', Cls (OneOf [DQ]), Grp 1 (plus (NoneOf [DQ])),
      Cls (OneOf [DQ])]"

definition code_block_replace :: "groups \<Rightarrow> string" where
  "code_block_replace g =
     (let language = group g 1;
          attributes = group g 2;
          code_block = group g 3;
          title = (if attributes \<noteq> []
                   then (case re_search attr_title_pattern attributes of
                           Some m \<Rightarrow> group m 1
                         | None \<Rightarrow> [])
                   else []);
          header_parts = (if title \<noteq> [] then [title] else [])
                         @ (if language \<noteq> [] then [''('' @ language @ '')''] else []);
          header_html = (if header_parts \<noteq> []
                         then ''<div class='' @ [DQ] @ ''code-header'' @ [DQ] @ ''><i>'' @ join '' '' header_parts
                              @ ''</i></div>''
                         else [])
      in header_html @ [NL] @ fence @ language @ [NL] @ strip code_block @ [NL] @ fence)"

definition preprocess_code_blocks :: "string \<Rightarrow> string" where
  "preprocess_code_blocks md_content = re_sub code_block_pattern code_block_replace md_content"

section \<open>Splitting off the frontmatter: parse_frontmatter\<close>

text \<open>\<open>lines[1:].index('---') + 1\<close>; \<open>None\<close> is the \<open>ValueError\<close> of \<open>index\<close>.\<close>

fun index_of :: "string \<Rightarrow> string list \<Rightarrow> nat option" where
  "index_of w [] = None"
| "index_of w (l # ls) = (if l = w then Some 0 else map_option Suc (index_of w ls))"

text \<open>\<open>\s+i18nReady:\s*true\<close> and \<open>:\s*\|\<close>.\<close>

definition i18n_pattern :: regex where
  "i18n_pattern = cat [plus Space, Lit ''i18nReady:'', Star Space, Lit ''true'']"

definition block_scalar_pattern :: regex where
  "block_scalar_pattern = cat [Lit '':'', Star Space, Lit ''|'']"

text \<open>
  The module defines \<open>parse_frontmatter\<close> twice. The second definition replaces the
  first when the module is loaded, so \<open>parse_frontmatter\<close> below, the second, is the one
  that \<open>process_files\<close> calls. \<open>lines[0]\<close> exists since \<open>split\<close> never returns an
  empty list, so neither definition reaches its outer \<open>except\<close>.
\<close>

definition parse_frontmatter :: "string \<Rightarrow> string option \<times> string" where
  "parse_frontmatter md_content =
     (let lines = split_on NL md_content in
      if strip (hd lines) = ''---'' then
        (case index_of ''---'' (tl lines) of
           Some i \<Rightarrow>
             (let end_of_frontmatter = i + 1;
                  frontmatter = join [NL] (take (end_of_frontmatter - 1) (drop 1 lines));
                  content = join [NL] (drop (end_of_frontmatter + 1) lines);
                  frontmatter = re_sub i18n_pattern (\<lambda>g. []) frontmatter;
                  frontmatter = re_sub block_scalar_pattern (\<lambda>g. '': '') frontmatter
              in (Some frontmatter, content))
         | None \<Rightarrow> (None, md_content))
      else (None, md_content))"

text \<open>The first definition, which the second one shadows: \<open>import.*?\n\<close> is removed from the body.\<close>

definition import_line_pattern :: regex where
  "import_line_pattern = cat [Lit ''import'', StarLazy Dot, Lit [NL]]"

definition parse_frontmatter_shadowed :: "string \<Rightarrow> string option \<times> string" where
  "parse_frontmatter_shadowed md_content =
     (let lines = split_on NL md_content in
      if strip (hd lines) = ''---'' then
        (case index_of ''---'' (tl lines) of
           Some i \<Rightarrow>
             (let end_of_frontmatter = i + 1;
                  frontmatter = join [NL] (take (end_of_frontmatter - 1) (drop 1 lines));
                  content = join [NL] (drop (end_of_frontmatter + 1) lines);
                  content = re_sub import_line_pattern (\<lambda>g. []) content
              in (Some frontmatter, content))
         | None \<Rightarrow> (None, md_content))
      else (None, md_content))"

section \<open>Reading the metadata: safe_load_frontmatter\<close>

text \<open>
  \<open>title:\s*['"]?(.*?)(?:['"]?\s*$|['"]?\s+\w+:)\<close> under MULTILINE, and the same for
  \<open>description\<close>.
\<close>

definition field_pattern :: "string \<Rightarrow> regex" where
  "field_pattern name = cat [Lit (name @ '':''), Star Space, Opt (Cls (OneOf [SQ, DQ])),
      Grp 1 (StarLazy Dot),
      Alt (cat [Opt (Cls (OneOf [SQ, DQ])), Star Space, EolM])
          (cat [Opt (Cls (OneOf [SQ, DQ])), plus Space, plus Word, Lit '':''])]"

text \<open>
  A metadata dictionary as the list of its items. A key or a value is given as the text
  Python prints for it. \<open>dict_set\<close> is \<open>d[k] = v\<close> and \<open>dict_update\<close> is \<open>d.update(e)\<close>.
\<close>

type_synonym metadata = "(string \<times> string) list"

fun dict_set :: "string \<Rightarrow> string \<Rightarrow> metadata \<Rightarrow> metadata" where
  "dict_set k v [] = [(k, v)]"
| "dict_set k v ((k', v') # d) = (if k = k' then (k, v) # d else (k', v') # dict_set k v d)"

definition dict_update :: "metadata \<Rightarrow> metadata \<Rightarrow> metadata" where
  "dict_update d e = fold (\<lambda>(k, v). dict_set k v) e d"

text \<open>The loop that drops the lines known to break the YAML parser; a line without a colon is dropped too.\<close>

definition keep_line :: "string \<Rightarrow> bool" where
  "keep_line line =
     (if contains line ''githubIntegrationURL:'' \<or> contains line ''label:''
         \<or> contains line ''maxHeadingLevel:''
      then False
      else if CHR '':'' \<in> set line then
        (let v = tl (dropWhile (\<lambda>c. c \<noteq> CHR '':'') line) in
         if contains v ''http'' \<and> SQ \<in> set v \<and> \<not> endswith v [SQ] then False
         else if count_char v SQ = 1 \<or> count_char v DQ = 1 then False
         else True)
      else False)"

text \<open>
  \<open>yaml\<close> stands for \<open>yaml.safe_load\<close> of the PyYAML library, which is not part of
  the repository: it gives the items of the mapping it parsed, and \<open>None\<close> when it raises
  or parses something that is not a mapping. Both cases leave the metadata as the two
  patterns found it.
\<close>

definition safe_load_frontmatter :: "(string \<Rightarrow> metadata option) \<Rightarrow> string \<Rightarrow> metadata option" where
  "safe_load_frontmatter yaml frontmatter_content =
     (if frontmatter_content = [] then None
      else
        (let title_match = re_search (field_pattern ''title'') frontmatter_content;
             desc_match = re_search (field_pattern ''description'') frontmatter_content;
             metadata = [];
             metadata = (case title_match of
                           Some m \<Rightarrow> dict_set ''title'' (strip_chars [CHR '' '', SQ, DQ] (group m 1)) metadata
                         | None \<Rightarrow> metadata);
             metadata = (case desc_match of
                           Some m \<Rightarrow> dict_set ''description'' (strip_chars [CHR '' '', SQ, DQ] (group m 1)) metadata
                         | None \<Rightarrow> metadata);
             lines = filter keep_line (split_on NL frontmatter_content);
             cleaned_content = join [NL] lines;
             metadata = (case yaml cleaned_content of
                           Some parsed_data \<Rightarrow> dict_update metadata parsed_data
                         | None \<Rightarrow> metadata)
         in if metadata \<noteq> [] then Some metadata else None))"


section \<open>Paths\<close>

text \<open>
  The functions of \<open>os.path\<close> (POSIX) and \<open>pathlib\<close> that the program calls, each after
  the library's own code. \<open>sep\<close> is \<open>os.sep\<close>.
\<close>

abbreviation sep :: char where "sep \<equiv> CHR ''/''"

text \<open>\<open>os.path.join(a, b)\<close>.\<close>

definition posix_join :: "string \<Rightarrow> string \<Rightarrow> string" where
  "posix_join a b =
     (if startswith b [sep] then b
      else if a = [] \<or> endswith a [sep] then a @ b
      else a @ [sep] @ b)"

text \<open>\<open>os.path.dirname(p)\<close> and \<open>os.path.basename(p)\<close>.\<close>

definition dirname :: "string \<Rightarrow> string" where
  "dirname p =
     (let head = rev (dropWhile (\<lambda>c. c \<noteq> sep) (rev p)) in
      if head \<noteq> [] \<and> head \<noteq> replicate (length head) sep then rstrip_chars [sep] head
      else head)"

definition basename :: "string \<Rightarrow> string" where
  "basename p = rev (takeWhile (\<lambda>c. c \<noteq> sep) (rev p))"

text \<open>\<open>Path(p).parts\<close>: the root, if the path has one, and then the components.\<close>

definition path_root :: "string \<Rightarrow> string list" where
  "path_root p =
     (if startswith p [sep]
      then (if startswith p [sep, sep] \<and> \<not> startswith p [sep, sep, sep] then [[sep, sep]]
            else [[sep]])
      else [])"

definition path_parts :: "string \<Rightarrow> string list" where
  "path_parts p = path_root p @ filter (\<lambda>c. c \<noteq> [] \<and> c \<noteq> ''.'') (split_on sep p)"

text \<open>\<open>Path(p).stem\<close>: the last component without its last suffix.\<close>

definition path_name :: "string \<Rightarrow> string" where
  "path_name p =
     (case rev (filter (\<lambda>c. c \<noteq> [] \<and> c \<noteq> ''.'') (split_on sep p)) of
        [] \<Rightarrow> []
      | c # _ \<Rightarrow> c)"

definition path_stem :: "string \<Rightarrow> string" where
  "path_stem p =
     (let name = path_name p;
          suffix = rev (takeWhile (\<lambda>c. c \<noteq> CHR ''.'') (rev name))
      in if CHR ''.'' \<in> set name \<and> length suffix + 1 < length name \<and> suffix \<noteq> []
         then take (length name - length suffix - 1) name
         else name)"

text \<open>
  \<open>Path(p).relative_to(Path(a) / b).as_posix()\<close>; \<open>None\<close> is the \<open>ValueError\<close> of a path
  that does not lie under the other.
\<close>

definition path_div_parts :: "string \<Rightarrow> string \<Rightarrow> string list" where
  "path_div_parts a b = (if startswith b [sep] then path_parts b else path_parts a @ path_parts b)"

definition relative_to :: "string \<Rightarrow> string list \<Rightarrow> string option" where
  "relative_to p other =
     (let parts = path_parts p in
      if take (length other) parts = other \<and> (other \<noteq> [] \<or> path_root p = [])
      then (let rel = drop (length other) parts in
            Some (if rel = [] then ''.'' else join [sep] rel))
      else None)"

text \<open>\<open>os.path.normpath(path)\<close>.\<close>

definition norm_step :: "bool \<Rightarrow> string \<Rightarrow> string list \<Rightarrow> string list" where
  "norm_step initial_slashes name new_comps =
     (if name = [] \<or> name = ''.'' then new_comps
      else if name \<noteq> ''..'' \<or> (\<not> initial_slashes \<and> new_comps = [])
              \<or> (new_comps \<noteq> [] \<and> last new_comps = ''..'')
      then new_comps @ [name]
      else if new_comps \<noteq> [] then butlast new_comps
      else new_comps)"

definition normpath :: "string \<Rightarrow> string" where
  "normpath path =
     (if path = [] then ''.''
      else
        (let initial_slashes = length (concat (path_root path));
             comps = fold (norm_step (0 < initial_slashes)) (split_on sep path) [];
             p = replicate initial_slashes sep @ join [sep] comps
         in if p = [] then ''.'' else p))"

text \<open>\<open>os.path.abspath(path)\<close>, where \<open>cwd\<close> is what \<open>os.getcwd()\<close> returns.\<close>

definition abspath :: "string \<Rightarrow> string \<Rightarrow> string" where
  "abspath cwd path = normpath (if startswith path [sep] then path else posix_join cwd path)"

text \<open>\<open>os.path.relpath(path, start)\<close>; \<open>None\<close> is the \<open>ValueError\<close> for an empty path.\<close>

fun common_prefix_length :: "string list \<Rightarrow> string list \<Rightarrow> nat" where
  "common_prefix_length (x # xs) (y # ys) = (if x = y then Suc (common_prefix_length xs ys) else 0)"
| "common_prefix_length xs ys = 0"

definition relpath :: "string \<Rightarrow> string \<Rightarrow> string \<Rightarrow> string option" where
  "relpath cwd path start =
     (if path = [] then None
      else
        (let start_list = filter (\<lambda>x. x \<noteq> []) (split_on sep (abspath cwd start));
             path_list = filter (\<lambda>x. x \<noteq> []) (split_on sep (abspath cwd path));
             i = common_prefix_length start_list path_list;
             rel_list = replicate (length start_list - i) ''..'' @ drop i path_list
         in Some (if rel_list = [] then ''.'' else join [sep] rel_list)))"

section \<open>File discovery: get_files_sorted\<close>

text \<open>
  The directory that \<open>os.walk\<close> visits: its files, and its subdirectories by name, both in
  the order the file system lists them. \<open>os_walk keep root t\<close> is the list of the pairs
  \<open>(root, files)\<close> that \<open>os.walk\<close> yields, top down, when the caller prunes \<open>dirs\<close> in
  place to the names that \<open>keep\<close> accepts, as the loop of the source does.
\<close>

datatype dirtree = Dir (dir_files: "string list") (dir_subdirs: "(string \<times> dirtree) list")

fun os_walk :: "(string \<Rightarrow> bool) \<Rightarrow> string \<Rightarrow> dirtree \<Rightarrow> (string \<times> string list) list" where
  "os_walk keep root (Dir files subs) =
     (root, files) #
     concat (map (\<lambda>(name, t). os_walk keep (posix_join root name) t)
                 (filter (\<lambda>(name, t). keep name) subs))"

datatype error = DocumentationProcessingError string

definition excluded_dirs :: "string list" where
  "excluded_dirs = [''node_modules'', ''.git'', ''_internal'', ''dist'', ''temp'', ''__pycache__'']"

definition keep_dir :: "string \<Rightarrow> bool" where
  "keep_dir d = (d \<notin> set excluded_dirs \<and> \<not> startswith d ''_'')"

definition is_document :: "string \<Rightarrow> bool" where
  "is_document file = (endswith file ''.md'' \<or> endswith file ''.mdx'')"

text \<open>\<open>f"{dir_path}/{'0' if is_index else '1'}{file}"\<close>\<close>

definition sort_key_of :: "string \<Rightarrow> string \<Rightarrow> string" where
  "sort_key_of full_path file =
     (let is_index = (file = ''index.md'');
          dir_path = dirname full_path
      in dir_path @ ''/'' @ (if is_index then ''0'' else ''1'') @ file)"

text \<open>The body of the inner loop for one file of the directory \<open>root\<close>.\<close>

definition file_entry :: "string \<Rightarrow> string \<Rightarrow> (string \<times> string) list" where
  "file_entry root file =
     (if is_document file then
        (let full_path = posix_join root file in
         if list_ex (\<lambda>x. x \<in> set (path_parts full_path)) excluded_dirs then []
         else [(full_path, sort_key_of full_path file)])
      else [])"

definition all_files :: "string \<Rightarrow> dirtree \<Rightarrow> (string \<times> string) list" where
  "all_files root_dir t =
     concat (map (\<lambda>(root, files). concat (map (file_entry root) files))
                 (os_walk keep_dir root_dir t))"

text \<open>
  The list is sorted by the key with Python's stable sort. The \<open>raise\<close> for an empty
  list is caught by the \<open>except\<close> of the function itself, which wraps its message.
\<close>

definition get_files_sorted :: "string \<Rightarrow> dirtree \<Rightarrow> error + string list" where
  "get_files_sorted root_dir t =
     (let found = all_files root_dir t in
      if found = []
      then Inl (DocumentationProcessingError
                  (''Error getting sorted files: No markdown files found in '' @ root_dir))
      else Inr (map fst (sort_key snd found)))"


section \<open>Numbering and page assembly: process_files\<close>

text \<open>
  What \<open>process_files\<close> takes from outside the repository: the files it opens
  (\<open>None\<close> where \<open>open\<close> or \<open>read\<close> raises), \<open>yaml.safe_load\<close>, \<open>markdown.markdown\<close> with
  the extensions of the source (\<open>None\<close> where it raises), \<open>str.title\<close>, the working
  directory and the text of \<open>styles.css\<close>, which the function creates when it is missing.
\<close>

record env =
  read_file :: "string \<Rightarrow> string option"
  yaml :: "string \<Rightarrow> metadata option"
  markdown :: "string \<Rightarrow> string option"
  str_title :: "string \<Rightarrow> string"
  getcwd :: string
  styles_css :: string

text \<open>
  One entry of the table of contents: the depth of the document, the counters
  \<open>numbering[:depth + 1]\<close> and the title. \<open>toc_line\<close> is the line that the source
  appends to \<open>toc\<close> for it.
\<close>

record toc_entry =
  te_depth :: nat
  te_numbering :: "nat list"
  te_title :: string

definition toc_numbering :: "toc_entry \<Rightarrow> string" where
  "toc_numbering e = join ''.'' (map str_nat (te_numbering e))"

definition toc_full_title :: "toc_entry \<Rightarrow> string" where
  "toc_full_title e = toc_numbering e @ '' - '' @ te_title e"

definition toc_line :: "toc_entry \<Rightarrow> string" where
  "toc_line e =
     concat (replicate (5 * te_depth e) ''&nbsp;'')
     @ ''<a href='' @ [SQ] @ ''#'' @ toc_full_title e @ [SQ] @ ''>'' @ toc_full_title e
     @ ''</a><br/>''"

text \<open>The state of the loop: \<open>toc\<close>, \<open>html_all_pages_content\<close> and \<open>numbering\<close>.\<close>

record pstate =
  toc :: "toc_entry list"
  pages :: "string list"
  numbering :: "nat list"

text \<open>\<open>while len(numbering) <= depth: numbering.append(0)\<close>\<close>

function extend_numbering :: "nat list \<Rightarrow> nat \<Rightarrow> nat list" where
  "extend_numbering counters depth =
     (if length counters \<le> depth then extend_numbering (counters @ [0]) depth else counters)"
  by pat_completeness auto
termination
  by (relation "measure (\<lambda>(counters, depth). Suc depth - length counters)") auto

declare extend_numbering.simps [simp del]

text \<open>\<open>for i in range(depth + 1, len(numbering)): numbering[i] = 0\<close>\<close>

definition reset_deeper :: "nat \<Rightarrow> nat list \<Rightarrow> nat list" where
  "reset_deeper depth counters =
     fold (\<lambda>i cs. cs[i := 0]) [Suc depth ..< length counters] counters"

definition bump :: "nat \<Rightarrow> nat list \<Rightarrow> nat list" where
  "bump depth counters =
     (let cs = extend_numbering counters depth;
          cs = cs[depth := cs ! depth + 1]
      in reset_deeper depth cs)"

definition page_break :: string where
  "page_break = ''<div class='' @ [DQ] @ ''page-break'' @ [DQ] @ ''></div>''"

text \<open>The depth of a document in the table of contents.\<close>

definition toc_depth :: "string \<Rightarrow> string \<Rightarrow> nat" where
  "toc_depth file_path rel_path =
     (let depth = count_char rel_path sep in
      if basename file_path = ''index.md'' \<and> depth > 0 then depth - 1 else depth)"

text \<open>
  The body of the loop for the file at \<open>index\<close> of \<open>n\<close> files. An exception anywhere in
  it ends the work on this file and keeps what the state holds by then: the entry of the
  table of contents is appended and the counters are advanced before the page is built.
\<close>

definition process_file ::
  "env \<Rightarrow> string \<Rightarrow> string \<Rightarrow> nat \<Rightarrow> nat \<Rightarrow> string \<Rightarrow> pstate \<Rightarrow> pstate" where
  "process_file e repo_dir docs_dir index n file_path st =
     (case read_file e file_path of
        None \<Rightarrow> st
      | Some text \<Rightarrow>
         (case parse_frontmatter (preprocess_code_blocks (process_image_paths text)) of
            (None, md_content) \<Rightarrow> st
          | (Some frontmatter, md_content) \<Rightarrow>
             if frontmatter = [] then st
             else
               (case safe_load_frontmatter (yaml e) frontmatter of
                  None \<Rightarrow> st
                | Some data \<Rightarrow>
                   (case relpath (getcwd e) file_path (posix_join repo_dir docs_dir) of
                      None \<Rightarrow> st
                    | Some rel_path \<Rightarrow>
                       (let depth = toc_depth file_path rel_path;
                            counters = bump depth (numbering st);
                            entry = \<lparr>te_depth = depth,
                                     te_numbering = take (depth + 1) counters,
                                     te_title = (case map_of data ''title'' of
                                                   Some t \<Rightarrow> t
                                                 | None \<Rightarrow> str_title e (path_stem file_path))\<rparr>;
                            st = st\<lparr>toc := toc st @ [entry], numbering := counters\<rparr>
                        in case relative_to file_path (path_div_parts repo_dir docs_dir) of
                             None \<Rightarrow> st
                           | Some doc_path \<Rightarrow>
                              (case markdown e md_content of
                                 None \<Rightarrow> st
                               | Some body \<Rightarrow>
                                  (let html_page_content =
                                         [''<h1 id='' @ [SQ] @ toc_full_title entry @ [SQ] @ ''>''
                                            @ toc_full_title entry @ ''</h1>'',
                                          ''<div class='doc-path'><p>Documentation path: ''
                                            @ doc_path @ ''</p></div>'']
                                         @ (case map_of data ''description'' of
                                              Some d \<Rightarrow>
                                                [''<p><strong>Description:</strong> '' @ d @ ''</p>'',
                                                 ''<br/>'']
                                            | None \<Rightarrow> [])
                                         @ [body]
                                   in st\<lparr>pages := pages st @ [join [NL] html_page_content]
                                                @ (if index + 1 < n then [page_break] else [])\<rparr>)))))))"

fun process_loop ::
  "env \<Rightarrow> string \<Rightarrow> string \<Rightarrow> nat \<Rightarrow> nat \<Rightarrow> string list \<Rightarrow> pstate \<Rightarrow> pstate" where
  "process_loop e repo_dir docs_dir index n [] st = st"
| "process_loop e repo_dir docs_dir index n (file_path # files) st =
     process_loop e repo_dir docs_dir (Suc index) n files
       (process_file e repo_dir docs_dir index n file_path st)"

definition initial_state :: pstate where
  "initial_state = \<lparr>toc = [], pages = [], numbering = [0]\<rparr>"

definition run_loop :: "env \<Rightarrow> string \<Rightarrow> string \<Rightarrow> string list \<Rightarrow> pstate" where
  "run_loop e repo_dir docs_dir files =
     process_loop e repo_dir docs_dir 0 (length files) files initial_state"

definition html_header :: "string \<Rightarrow> string" where
  "html_header css_content =
     [NL] @ ''        <!DOCTYPE html>'' @ [NL] @ ''        <html lang='' @ [DQ] @ ''en'' @
     [DQ] @ ''>'' @ [NL] @ ''        <head>'' @ [NL] @ ''            <meta charset='' @ [DQ] @
     ''UTF-8'' @ [DQ] @ ''>'' @ [NL] @ ''            <meta name='' @ [DQ] @ ''viewport'' @
     [DQ] @ '' content='' @ [DQ] @ ''width=device-width, initial-scale=1.0'' @ [DQ] @ ''>'' @
     [NL] @ ''            <style>'' @ css_content @ ''</style>'' @ [NL] @
     ''        </head>'' @ [NL] @ ''        <body>'' @ [NL] @ ''        ''"

definition toc_html :: "string \<Rightarrow> string" where
  "toc_html toc_lines =
     [NL] @ ''        <div style='' @ [DQ] @ ''padding-bottom: 10px'' @ [DQ] @ ''>'' @ [NL] @
     ''            <div style='' @ [DQ] @ ''padding-bottom: 20px'' @ [DQ] @ ''>'' @ [NL] @
     ''                <h1>Table of Contents</h1>'' @ [NL] @ ''            </div>'' @ [NL] @
     ''            '' @ toc_lines @ [NL] @ ''        </div>'' @ [NL] @
     ''        <div style='' @ [DQ] @ ''page-break-before: always;'' @ [DQ] @ ''>'' @ [NL] @
     ''        ''"

text \<open>
  The \<open>raise\<close> for a run without a page is caught by the \<open>except\<close> of the function
  itself, which wraps its message.
\<close>

section \<open>Notions for the proofs about the counters\<close>

text \<open>
  \<open>follows_in_toc a b\<close>: the counters shown for \<open>b\<close> are those that one update at the depth
  of \<open>b\<close> makes of the counters shown for \<open>a\<close>. \<open>toc_inv\<close> is what every state of the
  loop satisfies: each entry shows as many counters as its depth asks for, each entry
  follows the one before it, and the counters of the state are those of the last entry
  followed by zeros.
\<close>

definition follows_in_toc :: "toc_entry \<Rightarrow> toc_entry \<Rightarrow> bool" where
  "follows_in_toc a b =
     (te_numbering b = take (Suc (te_depth b)) (bump (te_depth b) (te_numbering a)))"

definition toc_inv :: "pstate \<Rightarrow> bool" where
  "toc_inv st =
     (list_all (\<lambda>x. length (te_numbering x) = Suc (te_depth x)) (toc st)
      \<and> successively follows_in_toc (toc st)
      \<and> (\<exists>k. numbering st
                = (if toc st = [] then [] else te_numbering (last (toc st))) @ replicate k 0))"

text \<open>
  The order of the numbering strings is the order of their components: the numbers that
  stand between the dots of a string. \<open>numbering_components\<close> reads them from the string.
\<close>

definition digit_value :: "char \<Rightarrow> nat" where
  "digit_value c = of_char c - 48"

definition nat_of_string :: "string \<Rightarrow> nat" where
  "nat_of_string s = foldl (\<lambda>a c. 10 * a + digit_value c) 0 s"

definition numbering_components :: "string \<Rightarrow> nat list" where
  "numbering_components s = map nat_of_string (split_on (CHR ''.'') s)"

text \<open>
  \<open>counted e repo_dir docs_dir file_path\<close>: the loop reaches the update of the counters
  for this file, which is when the file can be read, has a frontmatter block that is not
  empty and gives metadata, and has a path relative to the documentation directory.
\<close>

definition counted :: "env \<Rightarrow> string \<Rightarrow> string \<Rightarrow> string \<Rightarrow> bool" where
  "counted e repo_dir docs_dir file_path =
     (case read_file e file_path of
        None \<Rightarrow> False
      | Some text \<Rightarrow>
         (case parse_frontmatter (preprocess_code_blocks (process_image_paths text)) of
            (None, md_content) \<Rightarrow> False
          | (Some frontmatter, md_content) \<Rightarrow>
              frontmatter \<noteq> []
              \<and> safe_load_frontmatter (yaml e) frontmatter \<noteq> None
              \<and> relpath (getcwd e) file_path (posix_join repo_dir docs_dir) \<noteq> None))"

definition process_files :: "env \<Rightarrow> string list \<Rightarrow> string \<Rightarrow> string \<Rightarrow> error + string" where
  "process_files e files repo_dir docs_dir =
     (let st = run_loop e repo_dir docs_dir files in
      if pages st = []
      then Inl (DocumentationProcessingError
                  ''Error processing documentation: No content was successfully processed'')
      else Inr (html_header (styles_css e) @ toc_html (concat (map toc_line (toc st)))
                @ join [NL] (pages st) @ ''</body></html>''))"


section \<open>A small documentation tree\<close>

text \<open>
  The end-to-end scenario of the specification: \<open>docs/index.md\<close> (title Intro),
  \<open>docs/guide/index.md\<close> (title Guide) and \<open>docs/guide/setup.md\<close> (title Setup), with the
  discovery root \<open>docs\<close>, and beside them \<open>docs/notes.md\<close>, a file without frontmatter.
  Each of the three documents is its frontmatter block and an empty body.
\<close>

definition document :: "string \<Rightarrow> string" where
  "document title = ''---'' @ [NL] @ ''title: '' @ title @ [NL] @ ''---'' @ [NL]"

definition scenario_tree :: dirtree where
  "scenario_tree = Dir [''index.md''] [(''guide'', Dir [''setup.md'', ''index.md''] [])]"

definition scenario_files :: "(string \<times> string) list" where
  "scenario_files =
     [(''docs/index.md'', document ''Intro''),
      (''docs/guide/index.md'', document ''Guide''),
      (''docs/guide/setup.md'', document ''Setup''),
      (''docs/notes.md'', ''Notes without a frontmatter block.'' @ [NL])]"

text \<open>
  The values of the two libraries at the texts of the scenario: \<open>yaml.safe_load\<close> of a line
  \<open>title: X\<close> is the mapping of \<open>title\<close> to \<open>X\<close>, and \<open>markdown.markdown\<close> of the empty text
  is the empty text. No other value of theirs is used.
\<close>

definition scenario_yaml :: "string \<Rightarrow> metadata option" where
  "scenario_yaml s =
     (if startswith s ''title: '' \<and> NL \<notin> set s then Some [(''title'', drop 7 s)] else None)"

definition scenario_markdown :: "string \<Rightarrow> string option" where
  "scenario_markdown s = (if s = [] then Some [] else None)"

text \<open>\<open>str.title\<close> on ASCII text, as the file names of the scenario are.\<close>

definition ascii_lower :: string where
  "ascii_lower = ''abcdefghijklmnopqrstuvwxyz''"

definition ascii_upper :: string where
  "ascii_upper = ''ABCDEFGHIJKLMNOPQRSTUVWXYZ''"

definition to_upper :: "char \<Rightarrow> char" where
  "to_upper c = (case map_of (zip ascii_lower ascii_upper) c of Some u \<Rightarrow> u | None \<Rightarrow> c)"

definition to_lower :: "char \<Rightarrow> char" where
  "to_lower c = (case map_of (zip ascii_upper ascii_lower) c of Some l \<Rightarrow> l | None \<Rightarrow> c)"

fun title_from :: "bool \<Rightarrow> string \<Rightarrow> string" where
  "title_from previous_is_cased [] = []"
| "title_from previous_is_cased (c # cs) =
     (if c \<in> set ascii_lower \<or> c \<in> set ascii_upper
      then (if previous_is_cased then to_lower c else to_upper c) # title_from True cs
      else c # title_from False cs)"

definition ascii_title :: "string \<Rightarrow> string" where
  "ascii_title s = title_from False s"

definition scenario_env :: env where
  "scenario_env =
     \<lparr>read_file = map_of scenario_files,
      yaml = scenario_yaml,
      markdown = scenario_markdown,
      str_title = ascii_title,
      getcwd = ''/work'',
      styles_css = ''body { margin: 0; }''\<rparr>"


section \<open>The end-to-end scenario\<close>

text \<open>
  Claim C1, as the specification states it: the three documents are discovered in the
  order \<open>index.md\<close>, \<open>guide/index.md\<close>, \<open>guide/setup.md\<close> and numbered \<open>1\<close>, \<open>1.1\<close> and
  \<open>1.1.1\<close>. The order is as stated; the numbering is not the one the program gives.
\<close>

theorem C1_numbering_is_not_1_11_111:
  "map toc_numbering (toc (run_loop scenario_env '''' ''docs''
      [''docs/index.md'', ''docs/guide/index.md'', ''docs/guide/setup.md'']))
   \<noteq> [''1'', ''1.1'', ''1.1.1'']"
  by code_simp

text \<open>
  Claim C1, amended: the three documents are discovered in the order \<open>index.md\<close>,
  \<open>guide/index.md\<close>, \<open>guide/setup.md\<close>, at the depths 0, 0 and 1 (\<open>guide/index.md\<close> is
  counted one level above its path, at the depth of the directory \<open>guide\<close>, which is the
  depth of the root's own \<open>index.md\<close>), and numbered \<open>1\<close>, \<open>2\<close> and \<open>2.1\<close>.
\<close>

theorem C1_scenario_order_and_numbering:
  "get_files_sorted (posix_join '''' ''docs'') scenario_tree
     = Inr [''docs/index.md'', ''docs/guide/index.md'', ''docs/guide/setup.md'']
   \<and> map te_depth (toc (run_loop scenario_env '''' ''docs''
          [''docs/index.md'', ''docs/guide/index.md'', ''docs/guide/setup.md''])) = [0, 0, 1]
   \<and> map toc_numbering (toc (run_loop scenario_env '''' ''docs''
          [''docs/index.md'', ''docs/guide/index.md'', ''docs/guide/setup.md'']))
       = [''1'', ''2'', ''2.1'']"
  by code_simp


section \<open>Markdown images whose path starts with h, t or p\<close>

text \<open>
  Claim C2. Every Markdown image \<open>![alt](path)\<close> whose path is not absolute is to be
  rewritten to \<open>![alt](https://docs.astro.build/<path>)\<close>, whatever the first character
  of the path. The pattern of the source asks with \<open>[^http]\<close> for a first character
  that is none of h, t and p, so the relative path \<open>photo.png\<close> is not matched and the
  reference is returned as it came, while \<open>./img/x.png\<close> is rewritten.
\<close>

theorem C2_relative_path_starting_with_p_is_not_rewritten:
  "process_image_paths ''![a](photo.png)'' = ''![a](photo.png)''
   \<and> process_image_paths ''![a](./img/x.png)'' = ''![a](https://docs.astro.build/img/x.png)''"
  by code_simp


section \<open>Import lines in the body\<close>

text \<open>
  Claim C3. The body that \<open>parse_frontmatter\<close> returns for a document with a frontmatter
  block is to have its import lines removed. The definition in force returns the body
  with the import line in it; the definition it shadows removes the line.
\<close>

theorem C3_import_line_stays_in_the_body:
  "parse_frontmatter
      (''---'' @ [NL] @ ''title: T'' @ [NL] @ ''---'' @ [NL]
       @ ''import { a } from 'b';'' @ [NL] @ ''Body'' @ [NL])
     = (Some ''title: T'', ''import { a } from 'b';'' @ [NL] @ ''Body'' @ [NL])
   \<and> parse_frontmatter_shadowed
      (''---'' @ [NL] @ ''title: T'' @ [NL] @ ''---'' @ [NL]
       @ ''import { a } from 'b';'' @ [NL] @ ''Body'' @ [NL])
     = (Some ''title: T'', ''Body'' @ [NL])"
  by code_simp


section \<open>The order of discovery\<close>

lemma before_in_sorted:
  assumes s: "sorted (map snd S)"
    and x: "(x, kx) \<in> set S" and y: "(y, ky) \<in> set S" and lt: "kx < (ky :: string)"
  shows "\<exists>u v w. S = u @ (x, kx) # v @ (y, ky) # w"
proof -
  from x obtain u r where S: "S = u @ (x, kx) # r" by (meson split_list)
  have "(y, ky) \<notin> set u"
  proof
    assume "(y, ky) \<in> set u"
    with s S have "ky \<le> kx" by (auto simp: sorted_append)
    with lt show False by simp
  qed
  moreover from lt have "(y, ky) \<noteq> (x, kx)" by auto
  ultimately have "(y, ky) \<in> set r" using y S by auto
  then obtain v w where "r = v @ (y, ky) # w" by (meson split_list)
  with S show ?thesis by blast
qed

lemma get_files_sorted_Inr:
  assumes "get_files_sorted root_dir t = Inr found"
  shows "found = map fst (sort_key snd (all_files root_dir t))"
  using assms by (simp add: get_files_sorted_def Let_def split: if_splits)

lemma found_before:
  assumes g: "get_files_sorted root_dir t = Inr found"
    and x: "(x, kx) \<in> set (all_files root_dir t)"
    and y: "(y, ky) \<in> set (all_files root_dir t)" and lt: "kx < ky"
  shows "\<exists>u v w. found = u @ x # v @ y # w"
proof -
  let ?S = "sort_key snd (all_files root_dir t)"
  have a: "sorted (map snd ?S)" by (rule sorted_sort_key)
  have b: "(x, kx) \<in> set ?S" and c: "(y, ky) \<in> set ?S" using x y by simp_all
  have "\<exists>u v w. ?S = u @ (x, kx) # v @ (y, ky) # w"
    by (rule before_in_sorted[OF a b c lt])
  then obtain u v w where "?S = u @ (x, kx) # v @ (y, ky) # w" by blast
  then have "map fst ?S = map fst u @ x # map fst v @ y # map fst w" by simp
  with get_files_sorted_Inr[OF g] show ?thesis by blast
qed

lemma file_entry_cases:
  "file_entry root file = [] \<or>
   file_entry root file = [(posix_join root file, sort_key_of (posix_join root file) file)]"
  by (simp add: file_entry_def Let_def)

lemma all_files_member:
  assumes "(root, files) \<in> set (os_walk keep_dir root_dir t)" "file \<in> set files"
    and "file_entry root file \<noteq> []"
  shows "(posix_join root file, sort_key_of (posix_join root file) file)
           \<in> set (all_files root_dir t)"
proof -
  from assms(3) file_entry_cases[of root "file"]
  have "(posix_join root file, sort_key_of (posix_join root file) file)
          \<in> set (file_entry root file)" by auto
  with assms(1,2) show ?thesis
    unfolding all_files_def by (auto intro!: bexI[of _ "(root, files)"] bexI[of _ "file"])
qed

lemma dirname_join:
  assumes "sep \<notin> set file"
  shows "dirname (posix_join root file) = dirname (posix_join root [])"
proof -
  have sw: "\<not> startswith file [sep]"
    using assms by (cases "file") (auto simp: startswith_def)
  have d: "dropWhile (\<lambda>c. c \<noteq> sep) (rev file @ ys) = dropWhile (\<lambda>c. c \<noteq> sep) ys" for ys
    using assms by (intro dropWhile_append2) auto
  have h: "dropWhile (\<lambda>c. c \<noteq> sep) (rev (posix_join root file))
             = dropWhile (\<lambda>c. c \<noteq> sep) (rev (posix_join root []))"
    using sw d[of "rev root"] d[of "sep # rev root"]
    by (simp add: posix_join_def startswith_def)
  show ?thesis by (simp add: dirname_def h)
qed

lemma append_less_iff: "(xs @ u < xs @ v) = (u < (v :: string))"
  by (induction xs) simp_all

lemma index_key_first:
  assumes "sep \<notin> set file" "file \<noteq> ''index.md''"
  shows "sort_key_of (posix_join root ''index.md'') ''index.md''
           < sort_key_of (posix_join root file) file"
proof -
  have "sep \<notin> set ''index.md''" by simp
  from dirname_join[OF this] dirname_join[OF assms(1)]
  show ?thesis using assms(2)
    by (simp add: sort_key_of_def append_less_iff)
qed

lemma sibling_key_order:
  assumes "sep \<notin> set f1" "sep \<notin> set f2" "f1 \<noteq> ''index.md''" "f2 \<noteq> ''index.md''" "f1 < f2"
  shows "sort_key_of (posix_join root f1) f1 < sort_key_of (posix_join root f2) f2"
  using dirname_join[OF assms(1)] dirname_join[OF assms(2)] assms(3-5)
  by (simp add: sort_key_of_def append_less_iff)


lemma get_files_sorted_same:
  assumes "get_files_sorted root_dir t = Inr found"
  shows "set found = fst ` set (all_files root_dir t)"
    and "length found = length (all_files root_dir t)"
  using get_files_sorted_Inr[OF assms] by simp_all

lemma sibling_before:
  assumes g: "get_files_sorted root_dir t = Inr found"
    and w: "(root, files) \<in> set (os_walk keep_dir root_dir t)"
    and f1: "f1 \<in> set files" "file_entry root f1 \<noteq> []" "sep \<notin> set f1"
    and f2: "f2 \<in> set files" "file_entry root f2 \<noteq> []" "sep \<notin> set f2"
    and o: "(f1 = ''index.md'' \<and> f2 \<noteq> ''index.md'')
            \<or> (f1 \<noteq> ''index.md'' \<and> f2 \<noteq> ''index.md'' \<and> f1 < f2)"
  shows "\<exists>u v w. found = u @ posix_join root f1 # v @ posix_join root f2 # w"
proof -
  have lt: "sort_key_of (posix_join root f1) f1 < sort_key_of (posix_join root f2) f2"
    using o index_key_first[OF f2(3), of root] sibling_key_order[OF f1(3) f2(3), of root]
    by blast
  show ?thesis
    by (rule found_before[OF g all_files_member[OF w f1(1,2)] all_files_member[OF w f2(1,2)] lt])
qed

text \<open>
  Claim C4, as the specification states it: an index file in either extension comes before
  all its siblings, and parent directories compare as path strings. The source tests
  \<open>file == 'index.md'\<close>, so \<open>index.mdx\<close> is ordered by its name like any other file and comes
  after \<open>about.mdx\<close>. The key is one string, the directory followed by \<open>/\<close> and the marked file
  name, so the files of \<open>docs/a-b\<close> come before those of \<open>docs/a\<close>, although \<open>docs/a\<close> is
  the smaller path string.
\<close>

theorem C4_index_mdx_and_directory_order_differ:
  "get_files_sorted ''docs''
       (Dir [''index.mdx'', ''about.mdx'']
            [(''a'', Dir [''x.md''] []), (''a-b'', Dir [''y.md''] [])])
     = Inr [''docs/about.mdx'', ''docs/index.mdx'', ''docs/a-b/y.md'', ''docs/a/x.md'']
   \<and> ''docs/a'' < ''docs/a-b''"
  by code_simp

text \<open>
  Claim C4, amended: the list that discovery returns holds the documents found, ordered by
  their keys: of two documents with different keys the one with the smaller key comes
  first, the key being the directory path, \<open>/\<close>, \<open>0\<close> for a file named \<open>index.md\<close> and \<open>1\<close> for
  any other, and the file name. So in every directory of the tree the document \<open>index.md\<close>
  comes before every other document of that directory, and two other documents of one
  directory come in the lexicographic order of their file names.
\<close>

theorem C4_discovery_order:
  assumes "get_files_sorted root_dir t = Inr found"
  shows "set found = fst ` set (all_files root_dir t)
       \<and> length found = length (all_files root_dir t)
       \<and> (\<forall>x kx y ky. (x, kx) \<in> set (all_files root_dir t) \<and> (y, ky) \<in> set (all_files root_dir t)
              \<and> kx < ky \<longrightarrow> (\<exists>u v w. found = u @ x # v @ y # w))
       \<and> (\<forall>root files f1 f2.
              (root, files) \<in> set (os_walk keep_dir root_dir t)
              \<and> f1 \<in> set files \<and> file_entry root f1 \<noteq> [] \<and> sep \<notin> set f1
              \<and> f2 \<in> set files \<and> file_entry root f2 \<noteq> [] \<and> sep \<notin> set f2
              \<and> ((f1 = ''index.md'' \<and> f2 \<noteq> ''index.md'')
                  \<or> (f1 \<noteq> ''index.md'' \<and> f2 \<noteq> ''index.md'' \<and> f1 < f2))
              \<longrightarrow> (\<exists>u v w. found = u @ posix_join root f1 # v @ posix_join root f2 # w))"
proof (intro conjI allI impI)
  show "set found = fst ` set (all_files root_dir t)"
    by (rule get_files_sorted_same(1)[OF assms])
  show "length found = length (all_files root_dir t)"
    by (rule get_files_sorted_same(2)[OF assms])
next
  fix x kx y ky
  assume "(x, kx) \<in> set (all_files root_dir t) \<and> (y, ky) \<in> set (all_files root_dir t) \<and> kx < ky"
  then show "\<exists>u v w. found = u @ x # v @ y # w"
    using found_before[OF assms] by blast
next
  fix root files f1 f2
  assume h: "(root, files) \<in> set (os_walk keep_dir root_dir t)
              \<and> f1 \<in> set files \<and> file_entry root f1 \<noteq> [] \<and> sep \<notin> set f1
              \<and> f2 \<in> set files \<and> file_entry root f2 \<noteq> [] \<and> sep \<notin> set f2
              \<and> ((f1 = ''index.md'' \<and> f2 \<noteq> ''index.md'')
                  \<or> (f1 \<noteq> ''index.md'' \<and> f2 \<noteq> ''index.md'' \<and> f1 < f2))"
  show "\<exists>u v w. found = u @ posix_join root f1 # v @ posix_join root f2 # w"
    using h sibling_before[OF assms, of root files f1 f2] by blast
qed

theorem C4_discovery_order_witness:
  "get_files_sorted ''docs'' scenario_tree
     = Inr [''docs/index.md'', ''docs/guide/index.md'', ''docs/guide/setup.md'']
   \<and> (\<exists>u v w. [''docs/index.md'', ''docs/guide/index.md'', ''docs/guide/setup.md'']
                = u @ ''docs/guide/index.md'' # v @ ''docs/guide/setup.md'' # w)"
proof -
  have g: "get_files_sorted ''docs'' scenario_tree
             = Inr [''docs/index.md'', ''docs/guide/index.md'', ''docs/guide/setup.md'']"
    by code_simp
  have h: "(''docs/guide'', [''setup.md'', ''index.md'']) \<in> set (os_walk keep_dir ''docs'' scenario_tree)
           \<and> ''index.md'' \<in> set [''setup.md'', ''index.md'']
           \<and> file_entry ''docs/guide'' ''index.md'' \<noteq> [] \<and> sep \<notin> set ''index.md''
           \<and> ''setup.md'' \<in> set [''setup.md'', ''index.md'']
           \<and> file_entry ''docs/guide'' ''setup.md'' \<noteq> [] \<and> sep \<notin> set ''setup.md''
           \<and> ((''index.md'' = ''index.md'' \<and> ''setup.md'' \<noteq> ''index.md'')
               \<or> (''index.md'' \<noteq> ''index.md'' \<and> ''setup.md'' \<noteq> ''index.md''
                   \<and> ''index.md'' < ''setup.md''))"
    by code_simp
  have p: "posix_join ''docs/guide'' ''index.md'' = ''docs/guide/index.md''"
          "posix_join ''docs/guide'' ''setup.md'' = ''docs/guide/setup.md''"
    by code_simp+
  from C4_discovery_order[OF g] h
  have "\<exists>u v w. [''docs/index.md'', ''docs/guide/index.md'', ''docs/guide/setup.md'']
                = u @ posix_join ''docs/guide'' ''index.md'' # v @ posix_join ''docs/guide'' ''setup.md'' # w"
    by blast
  with g p show ?thesis by simp
qed

section \<open>The page break after the last page\<close>

text \<open>
  Claim C5. No page-break marker is to follow the last page that is emitted, also when
  the files at the end of the list are dropped. The source appends the marker after a
  page whenever the file is not the last of the list, so with \<open>docs/index.md\<close> followed by
  \<open>docs/notes.md\<close>, which has no frontmatter and is dropped, the one page that is emitted
  is followed by a marker.
\<close>

theorem C5_page_break_after_the_last_page:
  "pages (run_loop scenario_env '''' ''docs'' [''docs/index.md'', ''docs/notes.md''])
     = [join [NL] [''<h1 id='1 - Intro'>1 - Intro</h1>'',
                   ''<div class='doc-path'><p>Documentation path: index.md</p></div>'',
                   []],
        page_break]
   \<and> pages (run_loop scenario_env '''' ''docs'' [''docs/index.md''])
     = [join [NL] [''<h1 id='1 - Intro'>1 - Intro</h1>'',
                   ''<div class='doc-path'><p>Documentation path: index.md</p></div>'',
                   []]]"
  by code_simp


section \<open>When a frontmatter block is recognised\<close>

lemma split_on_nonempty: "split_on c s \<noteq> []"
  by (induction s) (auto split: list.splits)

lemma index_of_None: "index_of w ls = None \<longleftrightarrow> w \<notin> set ls"
  by (induction ls) auto

lemma index_of_Some:
  "index_of w ls = Some i \<Longrightarrow> ls = take i ls @ w # drop (Suc i) ls \<and> w \<notin> set (take i ls) \<and> i < length ls"
proof (induction ls arbitrary: i)
  case Nil
  then show ?case by simp
next
  case (Cons l ls)
  show ?case
  proof (cases "l = w")
    case True
    with Cons.prems show ?thesis by simp
  next
    case False
    with Cons.prems obtain j where j: "index_of w ls = Some j" "i = Suc j"
      by auto
    from Cons.IH[OF j(1)] j(2) False show ?thesis by auto
  qed
qed

text \<open>
  Claim C6, as the specification states it: a block is recognised only if the first
  line is exactly the marker \<open>---\<close>, and a document whose first line is not the marker
  is returned whole, without frontmatter. The source compares the first line after
  \<open>strip()\<close>, so a first line \<open>---\<close> followed by a blank, which is not the marker, opens
  a block.
\<close>

theorem C6_first_line_with_trailing_blank_opens_a_block:
  "hd (split_on NL (''--- '' @ [NL] @ ''title: T'' @ [NL] @ ''---'' @ [NL] @ ''Body'')) \<noteq> ''---''
   \<and> parse_frontmatter (''--- '' @ [NL] @ ''title: T'' @ [NL] @ ''---'' @ [NL] @ ''Body'')
       = (Some ''title: T'', ''Body'')"
  by code_simp

text \<open>
  Claim C6, amended: \<open>parse_frontmatter\<close> recognises a frontmatter block if and only if
  the first line of the document, with the white space at its ends stripped, is the
  marker \<open>---\<close> and a later line is exactly the marker. A document without such a
  block is returned whole, without frontmatter. With a block, the block ends at the first
  later line that is exactly the marker, and the body is what follows that line.
\<close>

theorem C6_frontmatter_recognition:
  "(fst (parse_frontmatter s) \<noteq> None
      \<longleftrightarrow> strip (hd (split_on NL s)) = ''---'' \<and> ''---'' \<in> set (tl (split_on NL s)))
   \<and> (fst (parse_frontmatter s) = None \<longrightarrow> parse_frontmatter s = (None, s))
   \<and> (fst (parse_frontmatter s) \<noteq> None \<longrightarrow>
        (\<exists>block rest. tl (split_on NL s) = block @ ''---'' # rest \<and> ''---'' \<notin> set block
           \<and> snd (parse_frontmatter s) = join [NL] rest))"
proof (cases "strip (hd (split_on NL s)) = ''---''")
  case False
  then show ?thesis by (simp add: parse_frontmatter_def Let_def)
next
  case True
  show ?thesis
  proof (cases "index_of ''---'' (tl (split_on NL s))")
    case None
    with True show ?thesis
      by (simp add: parse_frontmatter_def Let_def index_of_None[symmetric])
  next
    case (Some i)
    from index_of_Some[OF Some]
    have d: "tl (split_on NL s) = take i (tl (split_on NL s)) @ ''---'' # drop (Suc i) (tl (split_on NL s))"
      and n: "''---'' \<notin> set (take i (tl (split_on NL s)))" by auto
    have mem: "''---'' \<in> set (tl (split_on NL s))"
      using Some index_of_None[of "''---''" "tl (split_on NL s)"] by auto
    have body: "snd (parse_frontmatter s) = join [NL] (drop (Suc i) (tl (split_on NL s)))"
      using True Some by (simp add: parse_frontmatter_def Let_def drop_Suc)
    have fm: "fst (parse_frontmatter s) \<noteq> None"
      using True Some by (simp add: parse_frontmatter_def Let_def)
    from d n body fm mem True show ?thesis by blast
  qed
qed

theorem C6_frontmatter_recognition_witness:
  "parse_frontmatter ''# Title'' = (None, ''# Title'')"
proof -
  have a: "strip (hd (split_on NL ''# Title'')) \<noteq> ''---''"
    by code_simp
  from C6_frontmatter_recognition[of "''# Title''"] a show ?thesis
    by blast
qed


section \<open>The counters of the table of contents\<close>

subsection \<open>One update of the counters\<close>

lemma extend_numbering_eq:
  "extend_numbering cs d = cs @ replicate (Suc d - length cs) 0"
proof (induction cs d rule: extend_numbering.induct)
  case (1 cs d)
  show ?case
  proof (cases "length cs \<le> d")
    case True
    then have "Suc d - length cs = Suc (d - length cs)" by simp
    with True 1 show ?thesis
      by (subst extend_numbering.simps) (simp add: replicate_app_Cons_same)
  next
    case False
    then show ?thesis by (subst extend_numbering.simps) simp
  qed
qed

lemma fold_reset_length: "length (fold (\<lambda>i cs. cs[i := 0::nat]) is cs) = length cs"
  by (induction "is" arbitrary: cs) simp_all

lemma fold_reset_nth:
  "j < length cs \<Longrightarrow> fold (\<lambda>i cs. cs[i := 0::nat]) is cs ! j = (if j \<in> set is then 0 else cs ! j)"
proof (induction "is" arbitrary: cs)
  case Nil
  then show ?case by simp
next
  case (Cons i "is")
  have "j < length (cs[i := 0])" using Cons.prems by simp
  from Cons.IH[OF this] Cons.prems show ?case
    by (auto simp: nth_list_update)
qed

lemma reset_deeper_eq:
  "reset_deeper d cs = take (Suc d) cs @ replicate (length cs - Suc d) 0"
proof (rule nth_equalityI)
  show "length (reset_deeper d cs) = length (take (Suc d) cs @ replicate (length cs - Suc d) 0)"
    by (simp add: reset_deeper_def fold_reset_length)
next
  fix j assume "j < length (reset_deeper d cs)"
  then have j: "j < length cs" by (simp add: reset_deeper_def fold_reset_length)
  then show "reset_deeper d cs ! j = (take (Suc d) cs @ replicate (length cs - Suc d) 0) ! j"
    by (auto simp: reset_deeper_def fold_reset_nth nth_append)
qed

lemma bump_eq:
  "bump d cs = (take (Suc d) cs @ replicate (Suc d - length cs) 0)
                 [d := (if d < length cs then cs ! d else 0) + 1]
               @ replicate (length cs - Suc d) 0"
proof -
  let ?P = "cs @ replicate (Suc d - length cs) 0"
  have Pd: "?P ! d = (if d < length cs then cs ! d else 0)"
    by (auto simp: nth_append)
  have "bump d cs = take (Suc d) (?P[d := ?P ! d + 1]) @ replicate (length ?P - Suc d) 0"
    by (simp add: bump_def Let_def extend_numbering_eq reset_deeper_eq)
  also have "take (Suc d) (?P[d := ?P ! d + 1]) = (take (Suc d) ?P)[d := ?P ! d + 1]"
    by (simp add: take_update_swap)
  also have "take (Suc d) ?P = take (Suc d) cs @ replicate (Suc d - length cs) 0"
    by simp
  also have "length ?P - Suc d = length cs - Suc d" by auto
  finally show ?thesis using Pd by simp
qed

lemma shown_eq:
  "take (Suc d) (bump d cs)
     = (take (Suc d) cs @ replicate (Suc d - length cs) 0)
         [d := (if d < length cs then cs ! d else 0) + 1]"
  by (subst bump_eq) simp

lemma shown_length: "length (take (Suc d) (bump d cs)) = Suc d"
  by (subst shown_eq) auto

lemma bump_shown: "bump d cs = take (Suc d) (bump d cs) @ replicate (length cs - Suc d) 0"
  by (subst shown_eq, subst bump_eq) simp

lemma shown_pad: "take (Suc d) (bump d (cs @ replicate k 0)) = take (Suc d) (bump d cs)"
proof -
  have a: "take (Suc d) (cs @ replicate k 0) @ replicate (Suc d - length (cs @ replicate k 0)) 0
           = take (Suc d) cs @ replicate (Suc d - length cs) 0"
    by (simp add: replicate_add[symmetric] min_def)
  have b: "(if d < length (cs @ replicate k 0) then (cs @ replicate k 0) ! d else 0)
           = (if d < length cs then cs ! d else 0)"
    by (auto simp: nth_append)
  show ?thesis
    unfolding shown_eq a b ..
qed

lemma shown_shallower:
  assumes "length a = Suc da" "db \<le> da"
  shows "take (Suc db) (bump db a) = take db a @ [a ! db + 1]"
proof -
  from assms have l: "db < length a" by simp
  then have "take (Suc db) a = take db a @ [a ! db]"
    by (simp add: take_Suc_conv_app_nth)
  moreover have "(take db a @ [a ! db])[db := a ! db + 1] = take db a @ [a ! db + 1]"
    using l by (simp add: list_update_append)
  ultimately show ?thesis using l
    by (simp add: shown_eq)
qed

lemma shown_deeper:
  assumes "length a = Suc da" "da < db"
  shows "take (Suc db) (bump db a) = a @ replicate (db - Suc da) 0 @ [1]"
proof -
  from assms obtain j where j: "db = Suc da + j" by (metis less_iff_Suc_add add_Suc)
  have r: "replicate (Suc j) (0::nat) = replicate j 0 @ [0]"
    by (simp add: replicate_append_same)
  have "(a @ replicate (Suc j) 0)[Suc da + j := 1] = a @ replicate j 0 @ [1]"
    unfolding r using assms(1) by (simp add: list_update_append)
  with assms j show ?thesis
    by (simp add: shown_eq)
qed

lemma shown_greater:
  assumes "length a = Suc da"
  shows "a < take (Suc db) (bump db a)"
proof (cases "db \<le> da")
  case True
  with assms have l: "db < length a" by simp
  have "(take db a @ a ! db # drop (Suc db) a, take db a @ (a ! db + 1) # [])
          \<in> lexord {(u, v). u < v}"
    by (rule lexord_append_left_rightI) simp
  then show ?thesis
    using l by (simp add: list_less_def shown_shallower[OF assms True] id_take_nth_drop[symmetric])
next
  case False
  then have "da < db" by simp
  have "(a, a @ (replicate (db - Suc da) 0 @ [1])) \<in> lexord {(u, v). u < v}"
    by (rule lexord_append_rightI) (cases "replicate (db - Suc da) (0::nat)", auto)
  then show ?thesis
    by (simp add: list_less_def shown_deeper[OF assms \<open>da < db\<close>])
qed

lemma bump_length: "length (bump d cs) = max (length cs) (Suc d)"
  by (subst bump_eq) auto

lemma bump_zero_tail:
  assumes "d < i" "i < length (bump d cs)"
  shows "bump d cs ! i = 0"
proof -
  have "bump d cs ! i = (take (Suc d) (bump d cs) @ replicate (length cs - Suc d) 0) ! i"
    using bump_shown[of d cs] by simp
  also have "\<dots> = replicate (length cs - Suc d) 0 ! (i - Suc d)"
    using assms(1) by (simp add: nth_append bump_length)
  also have "\<dots> = 0"
    using assms by (simp add: bump_length)
  finally show ?thesis .
qed

lemma bump_at_depth:
  "bump d cs ! d = (if d < length cs then cs ! d else 0) + 1"
proof -
  have "bump d cs ! d = take (Suc d) (bump d cs) ! d" by simp
  also have "\<dots> = (if d < length cs then cs ! d else 0) + 1"
    by (subst shown_eq) simp
  finally show ?thesis .
qed

lemma bump_above_depth:
  assumes "i < d"
  shows "bump d cs ! i = (if i < length cs then cs ! i else 0)"
proof -
  have "bump d cs ! i = take (Suc d) (bump d cs) ! i" using assms by simp
  also have "\<dots> = (take (Suc d) cs @ replicate (Suc d - length cs) 0) ! i"
    using assms by (subst shown_eq) simp
  also have "\<dots> = (if i < length cs then cs ! i else 0)"
    using assms by (auto simp: nth_append)
  finally show ?thesis .
qed

lemma process_file_cases:
  "(toc (process_file e r dd i n f st) = toc st
      \<and> numbering (process_file e r dd i n f st) = numbering st)
   \<or> (\<exists>d title.
        toc (process_file e r dd i n f st)
          = toc st @ [\<lparr>te_depth = d, te_numbering = take (Suc d) (bump d (numbering st)),
                       te_title = title\<rparr>]
        \<and> numbering (process_file e r dd i n f st) = bump d (numbering st))"
  unfolding process_file_def
  by (simp add: Let_def split: option.split prod.split)

lemma toc_inv_initial: "toc_inv initial_state"
  unfolding toc_inv_def initial_state_def
  by (simp add: exI[of _ 1])

lemma toc_inv_append:
  assumes inv: "toc_inv st"
    and t: "toc st' = toc st @ [\<lparr>te_depth = d, te_numbering = take (Suc d) (bump d (numbering st)),
                                  te_title = title\<rparr>]"
    and c: "numbering st' = bump d (numbering st)"
  shows "toc_inv st'"
proof -
  let ?b = "\<lparr>te_depth = d, te_numbering = take (Suc d) (bump d (numbering st)), te_title = title\<rparr>"
  from inv obtain k where
    all: "list_all (\<lambda>x. length (te_numbering x) = Suc (te_depth x)) (toc st)"
    and suc: "successively follows_in_toc (toc st)"
    and num: "numbering st = (if toc st = [] then [] else te_numbering (last (toc st))) @ replicate k 0"
    unfolding toc_inv_def by blast
  have len: "length (te_numbering ?b) = Suc (te_depth ?b)"
    using shown_length[of d "numbering st"] by simp
  have 1: "list_all (\<lambda>x. length (te_numbering x) = Suc (te_depth x)) (toc st')"
    unfolding t using all len by simp
  have link: "follows_in_toc (last (toc st)) ?b" if "toc st \<noteq> []"
  proof -
    from that num have "numbering st = te_numbering (last (toc st)) @ replicate k 0" by simp
    then have "take (Suc d) (bump d (numbering st))
                 = take (Suc d) (bump d (te_numbering (last (toc st))))"
      using shown_pad[of d "te_numbering (last (toc st))" k] by simp
    then show ?thesis by (simp add: follows_in_toc_def)
  qed
  have 2: "successively follows_in_toc (toc st')"
    unfolding t using suc link by (auto simp: successively_append_iff)
  have 3: "numbering st' = te_numbering (last (toc st')) @ replicate (length (numbering st) - Suc d) 0"
    unfolding t c using bump_shown[of d "numbering st"] by simp
  have "toc st' \<noteq> []" unfolding t by simp
  with 1 2 3 show ?thesis
    unfolding toc_inv_def by auto
qed

lemma toc_inv_process_file:
  assumes "toc_inv st"
  shows "toc_inv (process_file e r dd i n f st)"
proof -
  from process_file_cases[of e r dd i n f st]
  consider (same) "toc (process_file e r dd i n f st) = toc st"
                  "numbering (process_file e r dd i n f st) = numbering st"
    | (more) d title where
        "toc (process_file e r dd i n f st)
           = toc st @ [\<lparr>te_depth = d, te_numbering = take (Suc d) (bump d (numbering st)),
                        te_title = title\<rparr>]"
        "numbering (process_file e r dd i n f st) = bump d (numbering st)"
    by blast
  then show ?thesis
  proof cases
    case same
    with assms show ?thesis unfolding toc_inv_def by metis
  next
    case more
    from toc_inv_append[OF assms more] show ?thesis .
  qed
qed

lemma toc_inv_process_loop:
  "toc_inv st \<Longrightarrow> toc_inv (process_loop e r dd i n files st)"
  by (induction files arbitrary: i st) (simp_all add: toc_inv_process_file)

lemma toc_inv_run_loop: "toc_inv (run_loop e r dd files)"
  unfolding run_loop_def by (rule toc_inv_process_loop) (rule toc_inv_initial)

lemma follows_step:
  assumes f: "follows_in_toc a m"
    and la: "length (te_numbering a) = Suc (te_depth a)"
    and da: "d \<le> te_depth a" and dm: "d \<le> te_depth m"
  shows "take d (te_numbering m) = take d (te_numbering a)
         \<and> te_numbering a ! d \<le> te_numbering m ! d
         \<and> (te_depth m = d \<longrightarrow> te_numbering a ! d < te_numbering m ! d)"
proof (cases "te_depth m \<le> te_depth a")
  case True
  from f have m: "te_numbering m = take (te_depth m) (te_numbering a)
                                   @ [te_numbering a ! te_depth m + 1]"
    unfolding follows_in_toc_def using shown_shallower[OF la True] by simp
  have l: "te_depth m < length (te_numbering a)" using la True by simp
  show ?thesis
  proof (cases "d = te_depth m")
    case True
    with m l show ?thesis by (simp add: nth_append)
  next
    case False
    with dm have "d < te_depth m" by simp
    with m l show ?thesis by (simp add: nth_append min_def)
  qed
next
  case False
  then have lt: "te_depth a < te_depth m" by simp
  from f have m: "te_numbering m = te_numbering a
                                   @ replicate (te_depth m - Suc (te_depth a)) 0 @ [1]"
    unfolding follows_in_toc_def using shown_deeper[OF la lt] by simp
  from da la have "d < length (te_numbering a)" by simp
  with m lt da show ?thesis by (simp add: nth_append)
qed

lemma sibling_chain:
  assumes "successively follows_in_toc (a # ms @ [b])"
    and "list_all (\<lambda>x. length (te_numbering x) = Suc (te_depth x)) (a # ms @ [b])"
    and "d \<le> te_depth a" and "\<forall>m\<in>set ms. d \<le> te_depth m" and "te_depth b = d"
  shows "take d (te_numbering b) = take d (te_numbering a)
         \<and> te_numbering a ! d < te_numbering b ! d"
  using assms
proof (induction ms arbitrary: a)
  case Nil
  then have "follows_in_toc a b" "length (te_numbering a) = Suc (te_depth a)" by simp_all
  from follows_step[OF this Nil.prems(3)] Nil.prems(5) show ?case by simp
next
  case (Cons m ms)
  from Cons.prems have f: "follows_in_toc a m" and la: "length (te_numbering a) = Suc (te_depth a)"
    and dm: "d \<le> te_depth m" by simp_all
  from follows_step[OF f la Cons.prems(3) dm]
  have s: "take d (te_numbering m) = take d (te_numbering a)"
          "te_numbering a ! d \<le> te_numbering m ! d" by simp_all
  have "take d (te_numbering b) = take d (te_numbering m)
        \<and> te_numbering m ! d < te_numbering b ! d"
    using Cons.prems by (intro Cons.IH) simp_all
  with s show ?case by simp
qed

lemma toc_inv_sorted:
  assumes "toc_inv st"
  shows "sorted_wrt (<) (map te_numbering (toc st))"
proof -
  from assms have all: "list_all (\<lambda>x. length (te_numbering x) = Suc (te_depth x)) (toc st)"
    and suc: "successively follows_in_toc (toc st)"
    unfolding toc_inv_def by blast+
  have "successively (\<lambda>x y. te_numbering x < te_numbering y) (toc st)"
  proof (rule successively_mono[OF suc])
    fix x y assume "x \<in> set (toc st)" "follows_in_toc x y"
    with all have "length (te_numbering x) = Suc (te_depth x)" by (simp add: list_all_iff)
    from shown_greater[OF this] \<open>follows_in_toc x y\<close>
    show "te_numbering x < te_numbering y" by (simp add: follows_in_toc_def)
  qed
  then have "successively (<) (map te_numbering (toc st))"
    by (simp add: successively_map)
  moreover have "transp ((<) :: nat list \<Rightarrow> nat list \<Rightarrow> bool)"
    by (rule transpI) (rule less_trans)
  ultimately show ?thesis
    by (simp add: successively_conv_sorted_wrt)
qed

lemma toc_inv_sibling_run:
  assumes inv: "toc_inv st"
    and t: "toc st = xs @ a # ms @ b # ys"
    and d: "te_depth a = d" "te_depth b = d" "\<forall>m\<in>set ms. d \<le> te_depth m"
  shows "take d (te_numbering a) = take d (te_numbering b)
         \<and> te_numbering a ! d < te_numbering b ! d"
proof -
  from inv have all: "list_all (\<lambda>x. length (te_numbering x) = Suc (te_depth x)) (toc st)"
    and suc: "successively follows_in_toc (toc st)"
    unfolding toc_inv_def by blast+
  have split: "toc st = xs @ (a # ms @ [b]) @ ys" using t by simp
  have 1: "successively follows_in_toc (a # ms @ [b])"
    using suc split by (metis successively_append_iff)
  have 2: "list_all (\<lambda>x. length (te_numbering x) = Suc (te_depth x)) (a # ms @ [b])"
    using all unfolding split by simp
  from sibling_chain[OF 1 2 _ d(3) d(2)] d(1) show ?thesis by simp
qed

subsection \<open>The numbering string and its components\<close>

lemma digit_props:
  assumes "n < 10"
  shows "digit_value (digit n) = n" and "CHR ''.'' \<noteq> digit n"
proof -
  from assms have "n \<in> {0, 1, 2, 3, 4, 5, 6, 7, 8, 9}" by auto
  then show "digit_value (digit n) = n" and "CHR ''.'' \<noteq> digit n"
    by (auto simp: digit_def digit_value_def)
qed

lemma nat_of_string_snoc: "nat_of_string (s @ [c]) = 10 * nat_of_string s + digit_value c"
  by (simp add: nat_of_string_def)

lemma nat_of_string_str_nat: "nat_of_string (str_nat n) = n"
proof (induction n rule: str_nat.induct)
  case (1 n)
  show ?case
  proof (cases "n < 10")
    case True
    then show ?thesis
      by (subst str_nat.simps) (simp add: nat_of_string_def digit_props)
  next
    case False
    then have "n mod 10 < 10" by simp
    with False 1 show ?thesis
      by (subst str_nat.simps) (simp add: nat_of_string_snoc digit_props)
  qed
qed

lemma str_nat_no_dot: "CHR ''.'' \<notin> set (str_nat n)"
proof (induction n rule: str_nat.induct)
  case (1 n)
  show ?case
  proof (cases "n < 10")
    case True
    then show ?thesis
      by (subst str_nat.simps) (simp add: digit_props)
  next
    case False
    then have "n mod 10 < 10" by simp
    with False 1 show ?thesis
      by (subst str_nat.simps) (simp add: digit_props)
  qed
qed

lemma split_on_no_sep: "c \<notin> set w \<Longrightarrow> split_on c (w @ c # s) = w # split_on c s"
  by (induction w) (auto split: list.splits)

lemma split_on_none: "c \<notin> set w \<Longrightarrow> split_on c w = [w]"
  by (induction w) (auto split: list.splits)

lemma split_on_join:
  assumes "ws \<noteq> []" "\<forall>w\<in>set ws. c \<notin> set w"
  shows "split_on c (join [c] ws) = ws"
  using assms
proof (induction ws)
  case Nil
  then show ?case by simp
next
  case step: (Cons w ws)
  show ?case
  proof (cases ws)
    case Nil
    with step.prems show ?thesis by (simp add: split_on_none)
  next
    case (Cons v vs)
    with step.IH step.prems have "split_on c (join [c] (v # vs)) = v # vs" by simp
    with Cons step.prems show ?thesis by (simp add: split_on_no_sep)
  qed
qed

lemma components_of_numbering:
  assumes "te_numbering x \<noteq> []"
  shows "numbering_components (toc_numbering x) = te_numbering x"
proof -
  have "split_on (CHR ''.'') (join ''.'' (map str_nat (te_numbering x))) = map str_nat (te_numbering x)"
    by (rule split_on_join) (use assms in \<open>auto simp: str_nat_no_dot\<close>)
  then show ?thesis
    by (simp add: numbering_components_def toc_numbering_def nat_of_string_str_nat comp_def)
qed

lemma toc_inv_components:
  assumes "toc_inv st"
  shows "map (\<lambda>x. numbering_components (toc_numbering x)) (toc st) = map te_numbering (toc st)"
proof (rule map_cong[OF refl])
  fix x assume "x \<in> set (toc st)"
  with assms have "length (te_numbering x) = Suc (te_depth x)"
    unfolding toc_inv_def by (simp add: list_all_iff)
  then have "te_numbering x \<noteq> []" by auto
  then show "numbering_components (toc_numbering x) = te_numbering x"
    by (rule components_of_numbering)
qed

subsection \<open>Which documents are counted\<close>

lemma process_file_not_counted:
  "\<not> counted e r dd f \<Longrightarrow> process_file e r dd i n f st = st"
  unfolding process_file_def counted_def
  by (auto split: option.splits prod.splits)

lemma process_file_counted:
  assumes "counted e r dd f" "relpath (getcwd e) f (posix_join r dd) = Some rel"
  shows "\<exists>title.
           toc (process_file e r dd i n f st)
             = toc st @ [\<lparr>te_depth = toc_depth f rel,
                          te_numbering = take (Suc (toc_depth f rel)) (bump (toc_depth f rel) (numbering st)),
                          te_title = title\<rparr>]
           \<and> numbering (process_file e r dd i n f st) = bump (toc_depth f rel) (numbering st)"
  using assms unfolding process_file_def counted_def
  by (auto simp: Let_def split: option.splits prod.splits)

lemma counted_relpath:
  "counted e r dd f \<Longrightarrow> \<exists>rel. relpath (getcwd e) f (posix_join r dd) = Some rel"
  unfolding counted_def by (auto split: option.splits prod.splits)

lemma toc_length_process_file:
  "length (toc (process_file e r dd i n f st))
     = length (toc st) + (if counted e r dd f then 1 else 0)"
proof (cases "counted e r dd f")
  case False
  then show ?thesis by (simp add: process_file_not_counted)
next
  case True
  from counted_relpath[OF True] obtain rel where
    "relpath (getcwd e) f (posix_join r dd) = Some rel" by blast
  from process_file_counted[OF True this, of i n st] True show ?thesis by auto
qed

lemma toc_length_process_loop:
  "length (toc (process_loop e r dd i n files st))
     = length (toc st) + length (filter (counted e r dd) files)"
  by (induction files arbitrary: i st) (simp_all add: toc_length_process_file)

lemma toc_length_run_loop:
  "length (toc (run_loop e r dd files)) = length (filter (counted e r dd) files)"
  unfolding run_loop_def by (simp add: toc_length_process_loop initial_state_def)

subsection \<open>The numbering over a whole run\<close>

text \<open>
  Claim C7. An update of the counters at depth \<open>d\<close> adds one to the counter at \<open>d\<close> and
  sets every deeper counter to zero. The loop makes this update for every document that is
  counted, at the depth of the document, and emits for it the string of the counters up
  to that depth, joined by dots; a document that is not counted leaves the state as it
  is. So for every list of files there is one emitted numbering string for each counted
  document, the strings grow strictly from each entry to the next in the lexicographic
  order of their components, and of two entries at the same depth \<open>k\<close> with no entry of a
  smaller depth between them, the later one has the same components above \<open>k\<close> and a
  greater component at \<open>k\<close>.
\<close>

theorem C7_counters_and_numbering:
  "bump d cs ! d = (if d < length cs then cs ! d else 0) + 1
   \<and> (\<forall>j. d < j \<and> j < length (bump d cs) \<longrightarrow> bump d cs ! j = 0)
   \<and> (\<not> counted e repo_dir docs_dir file_path
        \<longrightarrow> process_file e repo_dir docs_dir index n file_path st = st)
   \<and> (\<forall>rel. counted e repo_dir docs_dir file_path
          \<and> relpath (getcwd e) file_path (posix_join repo_dir docs_dir) = Some rel
        \<longrightarrow> numbering (process_file e repo_dir docs_dir index n file_path st)
              = bump (toc_depth file_path rel) (numbering st)
            \<and> map toc_numbering (toc (process_file e repo_dir docs_dir index n file_path st))
              = map toc_numbering (toc st)
                @ [join ''.'' (map str_nat (take (toc_depth file_path rel + 1)
                                              (bump (toc_depth file_path rel) (numbering st))))])
   \<and> length (toc (run_loop e repo_dir docs_dir files))
       = length (filter (counted e repo_dir docs_dir) files)
   \<and> sorted_wrt (<) (map (\<lambda>x. numbering_components (toc_numbering x))
                          (toc (run_loop e repo_dir docs_dir files)))
   \<and> (\<forall>xs a ms b ys k.
         toc (run_loop e repo_dir docs_dir files) = xs @ a # ms @ b # ys
         \<and> te_depth a = k \<and> te_depth b = k \<and> (\<forall>m\<in>set ms. k \<le> te_depth m)
         \<longrightarrow> take k (numbering_components (toc_numbering a))
               = take k (numbering_components (toc_numbering b))
             \<and> numbering_components (toc_numbering a) ! k
               < numbering_components (toc_numbering b) ! k)"
proof (intro conjI allI impI)
  show "bump d cs ! d = (if d < length cs then cs ! d else 0) + 1"
    by (rule bump_at_depth)
next
  fix j assume "d < j \<and> j < length (bump d cs)"
  then show "bump d cs ! j = 0" by (simp add: bump_zero_tail)
next
  assume "\<not> counted e repo_dir docs_dir file_path"
  then show "process_file e repo_dir docs_dir index n file_path st = st"
    by (rule process_file_not_counted)
next
  fix rel
  assume h: "counted e repo_dir docs_dir file_path
             \<and> relpath (getcwd e) file_path (posix_join repo_dir docs_dir) = Some rel"
  from process_file_counted[of e repo_dir docs_dir file_path rel index n st] h
  obtain title where
    t: "toc (process_file e repo_dir docs_dir index n file_path st)
          = toc st @ [\<lparr>te_depth = toc_depth file_path rel,
                       te_numbering = take (Suc (toc_depth file_path rel))
                                        (bump (toc_depth file_path rel) (numbering st)),
                       te_title = title\<rparr>]"
    and c: "numbering (process_file e repo_dir docs_dir index n file_path st)
              = bump (toc_depth file_path rel) (numbering st)"
    by blast
  from c show "numbering (process_file e repo_dir docs_dir index n file_path st)
                 = bump (toc_depth file_path rel) (numbering st)" .
  from t show "map toc_numbering (toc (process_file e repo_dir docs_dir index n file_path st))
                 = map toc_numbering (toc st)
                   @ [join ''.'' (map str_nat (take (toc_depth file_path rel + 1)
                                                 (bump (toc_depth file_path rel) (numbering st))))]"
    by (simp add: toc_numbering_def)
next
  show "length (toc (run_loop e repo_dir docs_dir files))
          = length (filter (counted e repo_dir docs_dir) files)"
    by (rule toc_length_run_loop)
next
  have "sorted_wrt (<) (map te_numbering (toc (run_loop e repo_dir docs_dir files)))"
    by (rule toc_inv_sorted) (rule toc_inv_run_loop)
  then show "sorted_wrt (<) (map (\<lambda>x. numbering_components (toc_numbering x))
                                (toc (run_loop e repo_dir docs_dir files)))"
    by (simp only: toc_inv_components[OF toc_inv_run_loop])
next
  fix xs a ms b ys k
  assume h: "toc (run_loop e repo_dir docs_dir files) = xs @ a # ms @ b # ys
             \<and> te_depth a = k \<and> te_depth b = k \<and> (\<forall>m\<in>set ms. k \<le> te_depth m)"
  have inv: "toc_inv (run_loop e repo_dir docs_dir files)" by (rule toc_inv_run_loop)
  from toc_inv_components[OF inv] h
  have ca: "numbering_components (toc_numbering a) = te_numbering a"
    and cb: "numbering_components (toc_numbering b) = te_numbering b" by simp_all
  from toc_inv_sibling_run[OF inv, of xs a ms b ys k] h
  show "take k (numbering_components (toc_numbering a))
          = take k (numbering_components (toc_numbering b))"
    and "numbering_components (toc_numbering a) ! k
           < numbering_components (toc_numbering b) ! k"
    unfolding ca cb by blast+
qed

theorem C7_counters_and_numbering_witness:
  "bump 0 [1, 3, 2] ! 2 = 0
   \<and> process_file scenario_env '''' ''docs'' 3 4 ''docs/notes.md'' initial_state = initial_state
   \<and> map toc_numbering (toc (process_file scenario_env '''' ''docs'' 0 4 ''docs/index.md''
                                initial_state)) = [''1'']
   \<and> length (toc (run_loop scenario_env '''' ''docs''
        [''docs/index.md'', ''docs/guide/index.md'', ''docs/guide/setup.md'', ''docs/notes.md''])) = 3
   \<and> sorted_wrt (<) (map (\<lambda>x. numbering_components (toc_numbering x))
        (toc (run_loop scenario_env '''' ''docs''
        [''docs/index.md'', ''docs/guide/index.md'', ''docs/guide/setup.md'', ''docs/notes.md''])))
   \<and> numbering_components (toc_numbering \<lparr>te_depth = 0, te_numbering = [1], te_title = ''Intro''\<rparr>) ! 0
       < numbering_components (toc_numbering \<lparr>te_depth = 0, te_numbering = [2], te_title = ''Guide''\<rparr>) ! 0"
proof -
  let ?files = "[''docs/index.md'', ''docs/guide/index.md'', ''docs/guide/setup.md'', ''docs/notes.md'']"
  note T = C7_counters_and_numbering[where d = 0 and cs = "[1, 3, 2]" and e = scenario_env
      and repo_dir = "''''" and docs_dir = "''docs''" and index = 0 and n = 4
      and file_path = "''docs/index.md''" and st = initial_state and files = ?files]
  note U = C7_counters_and_numbering[where d = 0 and cs = "[1, 3, 2]" and e = scenario_env
      and repo_dir = "''''" and docs_dir = "''docs''" and index = 3 and n = 4
      and file_path = "''docs/notes.md''" and st = initial_state and files = ?files]
  have h1: "(0::nat) < 2 \<and> 2 < length (bump 0 [1, 3, 2])"
    by code_simp
  have h2: "toc (run_loop scenario_env '''' ''docs'' ?files)
            = [] @ \<lparr>te_depth = 0, te_numbering = [1], te_title = ''Intro''\<rparr> # []
                 @ \<lparr>te_depth = 0, te_numbering = [2], te_title = ''Guide''\<rparr>
                 # [\<lparr>te_depth = 1, te_numbering = [2, 1], te_title = ''Setup''\<rparr>]"
    by code_simp
  have h3: "\<not> counted scenario_env '''' ''docs'' ''docs/notes.md''"
    by code_simp
  have h4: "counted scenario_env '''' ''docs'' ''docs/index.md''
            \<and> relpath (getcwd scenario_env) ''docs/index.md'' (posix_join '''' ''docs'')
                = Some ''index.md''"
    by code_simp
  have v4: "map toc_numbering (toc initial_state)
              @ [join ''.'' (map str_nat (take (toc_depth ''docs/index.md'' ''index.md'' + 1)
                   (bump (toc_depth ''docs/index.md'' ''index.md'') (numbering initial_state))))]
            = [''1'']"
    by code_simp
  have v5: "length (filter (counted scenario_env '''' ''docs'') ?files) = 3"
    by code_simp
  from T h1 have c1: "bump 0 [1, 3, 2] ! 2 = 0" by blast
  from U h3 have c2: "process_file scenario_env '''' ''docs'' 3 4 ''docs/notes.md'' initial_state
                        = initial_state" by blast
  from T h4 have "map toc_numbering (toc (process_file scenario_env '''' ''docs'' 0 4
                    ''docs/index.md'' initial_state))
                  = map toc_numbering (toc initial_state)
              @ [join ''.'' (map str_nat (take (toc_depth ''docs/index.md'' ''index.md'' + 1)
                   (bump (toc_depth ''docs/index.md'' ''index.md'') (numbering initial_state))))]"
    by blast
  with v4 have c3: "map toc_numbering (toc (process_file scenario_env '''' ''docs'' 0 4
                    ''docs/index.md'' initial_state)) = [''1'']" by simp
  from T v5 have c4: "length (toc (run_loop scenario_env '''' ''docs'' ?files)) = 3" by simp
  from T have c5: "sorted_wrt (<) (map (\<lambda>x. numbering_components (toc_numbering x))
        (toc (run_loop scenario_env '''' ''docs'' ?files)))" by blast
  from T have "\<forall>xs a ms b ys k.
         toc (run_loop scenario_env '''' ''docs'' ?files) = xs @ a # ms @ b # ys
         \<and> te_depth a = k \<and> te_depth b = k \<and> (\<forall>m\<in>set ms. k \<le> te_depth m)
         \<longrightarrow> take k (numbering_components (toc_numbering a))
               = take k (numbering_components (toc_numbering b))
             \<and> numbering_components (toc_numbering a) ! k
               < numbering_components (toc_numbering b) ! k" by blast
  from this[rule_format, of "[]" "\<lparr>te_depth = 0, te_numbering = [1], te_title = ''Intro''\<rparr>" "[]"
        "\<lparr>te_depth = 0, te_numbering = [2], te_title = ''Guide''\<rparr>"
        "[\<lparr>te_depth = 1, te_numbering = [2, 1], te_title = ''Setup''\<rparr>]" 0] h2
  have c6: "numbering_components (toc_numbering \<lparr>te_depth = 0, te_numbering = [1], te_title = ''Intro''\<rparr>) ! 0
       < numbering_components (toc_numbering \<lparr>te_depth = 0, te_numbering = [2], te_title = ''Guide''\<rparr>) ! 0"
    by simp
  from c1 c2 c3 c4 c5 c6 show ?thesis by blast
qed

section \<open>Documents without metadata\<close>

lemma dict_set_nonempty: "dict_set k v d \<noteq> []"
  by (cases d) (auto split: if_splits)

lemma fold_dict_set_nonempty: "d \<noteq> [] \<Longrightarrow> fold (\<lambda>(k, v). dict_set k v) e d \<noteq> []"
proof (induction e arbitrary: d)
  case Nil
  then show ?case by simp
next
  case (Cons x e)
  obtain k v where x: "x = (k, v)" by (cases x)
  have "fold (\<lambda>(k, v). dict_set k v) e (dict_set k v d) \<noteq> []"
    by (rule Cons.IH) (rule dict_set_nonempty)
  with x show ?case by simp
qed

lemma dict_update_empty: "dict_update d e = [] \<longleftrightarrow> d = [] \<and> e = []"
proof (cases e)
  case Nil
  then show ?thesis by (simp add: dict_update_def)
next
  case (Cons x xs)
  obtain k v where x: "x = (k, v)" by (cases x)
  have "fold (\<lambda>(k, v). dict_set k v) xs (dict_set k v d) \<noteq> []"
    by (rule fold_dict_set_nonempty) (rule dict_set_nonempty)
  with Cons x show ?thesis by (simp add: dict_update_def)
qed

lemma safe_load_frontmatter_None:
  "safe_load_frontmatter y f = None \<longleftrightarrow>
     f = [] \<or> (re_search (field_pattern ''title'') f = None
               \<and> re_search (field_pattern ''description'') f = None
               \<and> (y (join [NL] (filter keep_line (split_on NL f))) = None
                    \<or> y (join [NL] (filter keep_line (split_on NL f))) = Some []))"
proof (cases "f = []")
  case True
  then show ?thesis by (simp add: safe_load_frontmatter_def)
next
  case False
  show ?thesis
  proof (cases "re_search (field_pattern ''title'') f")
    case None
    note t = None
    show ?thesis
    proof (cases "re_search (field_pattern ''description'') f")
      case None
      show ?thesis
      proof (cases "y (join [NL] (filter keep_line (split_on NL f)))")
        case None
        with t \<open>re_search (field_pattern ''description'') f = None\<close> False show ?thesis
          by (simp add: safe_load_frontmatter_def)
      next
        case (Some parsed)
        with t \<open>re_search (field_pattern ''description'') f = None\<close> False show ?thesis
          by (simp add: safe_load_frontmatter_def dict_update_empty)
      qed
    next
      case (Some m)
      with t False show ?thesis
        by (cases "y (join [NL] (filter keep_line (split_on NL f)))")
           (simp_all add: safe_load_frontmatter_def dict_update_empty dict_set_nonempty)
    qed
  next
    case (Some m)
    with False show ?thesis
      by (cases "re_search (field_pattern ''description'') f";
          cases "y (join [NL] (filter keep_line (split_on NL f)))")
         (simp_all add: safe_load_frontmatter_def dict_update_empty dict_set_nonempty)
  qed
qed

text \<open>
  Claim C9. A document whose metadata is absent, because \<open>parse_frontmatter\<close> finds no
  frontmatter or because \<open>safe_load_frontmatter\<close> returns \<open>None\<close> for it, leaves the
  state of the loop as it was: no page and no entry of the table of contents is added,
  the counters stay, and the loop goes on with the next file.
\<close>

theorem C9_document_without_metadata_is_dropped:
  assumes "read_file e file_path = Some text"
      and "parse_frontmatter (preprocess_code_blocks (process_image_paths text)) = (fm, body)"
      and "fm = None \<or> (\<exists>f. fm = Some f \<and> safe_load_frontmatter (yaml e) f = None)"
  shows "process_file e repo_dir docs_dir index n file_path st = st
       \<and> process_loop e repo_dir docs_dir index n (file_path # files) st
           = process_loop e repo_dir docs_dir (Suc index) n files st"
proof -
  have "process_file e repo_dir docs_dir index n file_path st = st"
    using assms by (auto simp: process_file_def)
  then show ?thesis by simp
qed

theorem C9_document_without_metadata_is_dropped_witness:
  "process_file scenario_env '''' ''docs'' 1 2 ''docs/notes.md'' initial_state = initial_state
   \<and> process_loop scenario_env '''' ''docs'' 1 2 [''docs/notes.md''] initial_state = initial_state"
proof -
  have r: "read_file scenario_env ''docs/notes.md'' = Some (''Notes without a frontmatter block.'' @ [NL])"
    by code_simp
  have p: "parse_frontmatter (preprocess_code_blocks (process_image_paths
             (''Notes without a frontmatter block.'' @ [NL])))
           = (None, ''Notes without a frontmatter block.'' @ [NL])"
    by code_simp
  have d: "(None :: string option) = None \<or> (\<exists>f. None = Some f \<and> safe_load_frontmatter (yaml scenario_env) f = None)"
    by simp
  from C9_document_without_metadata_is_dropped[OF r p d, of "''''" "''docs''" 1 2 initial_state "[]"]
  show ?thesis by (simp only: process_loop.simps)
qed

end
